theory Spec2Isabelle
  imports Complex_Main
begin

section \<open>The checkpointed bulk loader \<^verbatim>\<open>scripts/load_pwc_data_to_postgres.py\<close>\<close>

text \<open>
  The script loads four parquet sources (papers, datasets, code links, evaluation records)
  into a Postgres database, in batches, and keeps a pickled checkpoint dictionary beside
  the data. The embedding follows the script function by function:
  \<^item> the checkpoint dictionary is a record, the checkpoint file is an optional record
    (absent file: \<open>None\<close>);
  \<^item> a parquet source is an optional list of rows (absent file: \<open>None\<close>), a row is a
    record of the columns the control flow reads and of the text columns that are copied;
    a missing value (\<open>None\<close>/NaN, what \<^verbatim>\<open>pd.isna\<close> tests) is \<open>None\<close>;
  \<^item> the database is a record of tables, each a list of rows in insertion order; every SQL
    statement the script sends is a constructor of \<open>stmt\<close> and \<open>run_stmt\<close> gives its meaning;
  \<^item> exceptions are values: a statement may raise, and the script's \<^verbatim>\<open>try\<close>/\<^verbatim>\<open>except\<close>
    blocks are case distinctions on the raised value;
  \<^item> the loops are recursive functions over the rows of a batch and over the batch starts
    \<^verbatim>\<open>range(start_offset, len(df), batch_size)\<close>.

  Offsets and the batch size are natural numbers: the script only ever writes
  \<^verbatim>\<open>0\<close> and \<^verbatim>\<open>i + batch_size\<close> into the checkpoint, and \<^verbatim>\<open>main\<close> always uses the default
  batch size 1000. The columns \<^verbatim>\<open>date\<close>, \<^verbatim>\<open>authors\<close>, \<^verbatim>\<open>modalities\<close> and \<^verbatim>\<open>paper\<close> are coerced
  by code that catches its own errors and never decides a branch of the row loop; they are
  left out of the rows. The progress lines printed inside the loaders are left out as well;
  the lines printed by \<^verbatim>\<open>main\<close> are kept as messages.
\<close>

subsection \<open>Exceptions\<close>

text \<open>
  \<^verbatim>\<open>main\<close> distinguishes \<^verbatim>\<open>KeyboardInterrupt\<close> from \<^verbatim>\<open>Exception\<close>; the row loops catch
  \<^verbatim>\<open>Exception\<close> only, so a \<^verbatim>\<open>KeyboardInterrupt\<close> leaves them.
\<close>

datatype exn = KeyboardInterrupt | Exception

subsection \<open>The checkpoint\<close>

record checkpoint =
  papers_offset :: nat
  datasets_offset :: nat
  links_offset :: nat
  eval_offset :: nat
  papers_complete :: bool
  datasets_complete :: bool
  links_complete :: bool
  eval_complete :: bool

subsection \<open>Source rows\<close>

record paper_row =
  arxiv_id :: "string option"
  title :: "string option"
  abstract :: "string option"
  url_abs :: "string option"
  url_pdf :: "string option"

record dataset_row =
  name :: "string option"
  description :: "string option"
  homepage :: "string option"

record link_row =
  paper_arxiv_id :: "string option"
  repo_url :: "string option"
  framework :: "string option"
  is_official :: bool

text \<open>
  The \<^verbatim>\<open>value\<close> column of an evaluation record is read through \<^verbatim>\<open>pd.notna\<close> and \<^verbatim>\<open>float\<close>:
  it is missing, or \<^verbatim>\<open>float\<close> returns a number, or \<^verbatim>\<open>float\<close> raises \<^verbatim>\<open>ValueError\<close> or
  \<^verbatim>\<open>TypeError\<close>.
\<close>

datatype metric_field = MetricMissing | MetricNumber real | MetricNotNumeric

record eval_row =
  dataset :: "string option"
  task :: "string option"
  eval_paper_arxiv_id :: "string option"
  metric :: "string option"
  metric_value :: metric_field

subsection \<open>The destination store\<close>

text \<open>
  Modelled from the spec: the schema file \<^verbatim>\<open>supabase/migrations/001_initial_schema.sql\<close> is
  not among the sources, so the tables and their uniqueness constraints are those the
  specification lists: \<^verbatim>\<open>papers(arxiv_id UNIQUE)\<close>, \<^verbatim>\<open>datasets(name UNIQUE)\<close>,
  \<^verbatim>\<open>implementations(paper_id FK)\<close>, \<^verbatim>\<open>benchmarks(UNIQUE(name, dataset_id))\<close>,
  \<^verbatim>\<open>benchmark_results(UNIQUE(paper_id, benchmark_id, metric_name))\<close>. Reference columns are
  nullable. Foreign keys are not enforced by the model, so that a valid reference is a
  property of the loader and not of the store.
\<close>

record paper =
  p_id :: nat
  p_title :: "string option"
  p_abstract :: "string option"
  p_arxiv_id :: "string option"
  p_arxiv_url :: "string option"
  p_pdf_url :: "string option"

record dataset_rec =
  d_id :: nat
  d_name :: "string option"
  d_description :: "string option"
  d_homepage_url :: "string option"

record implementation =
  i_id :: nat
  i_paper_id :: "nat option"
  i_github_url :: string
  i_framework :: "string option"
  i_is_official :: bool

record benchmark =
  b_id :: nat
  b_name :: string
  b_dataset_id :: "nat option"
  b_task :: string

record benchmark_result =
  r_id :: nat
  r_paper_id :: "nat option"
  r_benchmark_id :: "nat option"
  r_metric_name :: string
  r_metric_value :: real

record database =
  papers :: "paper list"
  datasets :: "dataset_rec list"
  implementations :: "implementation list"
  benchmarks :: "benchmark list"
  benchmark_results :: "benchmark_result list"
  next_id :: nat

text \<open>The seven statements the loaders send, with their parameters.\<close>

datatype stmt =
    InsertPaper "string option" "string option" string "string option" "string option"
  | InsertDataset "string option" "string option" "string option"
  | SelectPaperId string
  | InsertImplementation nat string "string option" bool
  | SelectDatasetId string
  | UpsertBenchmark string "nat option" string
  | InsertBenchmarkResult nat nat string real

subsection \<open>The environment of a run\<close>

text \<open>
  Everything a run reads and does not change: the four source files, whether the data
  directory and the connection string exist, and the behaviour of the server.
  \<open>faults\<close> says for which statements \<^verbatim>\<open>cur.execute\<close> raises (an \<^verbatim>\<open>Exception\<close> of the driver
  or the server, or a \<^verbatim>\<open>KeyboardInterrupt\<close> delivered while the statement is in flight), and
  \<open>connect_fault\<close> whether \<^verbatim>\<open>psycopg2.connect\<close> raises. A statement that raises has no
  effect on the database, and whether a statement raises depends on the statement alone;
  that a failed statement may fail the rest of its transaction is not modelled.
  Two details of the absent schema are parameters: whether a \<^verbatim>\<open>NULL\<close> key column makes
  two rows distinct for a uniqueness constraint (the Postgres default), and whether
  \<^verbatim>\<open>implementations\<close> has a uniqueness constraint on \<^verbatim>\<open>(paper_id, github_url)\<close>.
\<close>

record env =
  database_url_set :: bool
  data_dir_exists :: bool
  papers_src :: "paper_row list option"
  datasets_src :: "dataset_row list option"
  links_src :: "link_row list option"
  eval_src :: "eval_row list option"
  faults :: "stmt \<Rightarrow> exn option"
  connect_fault :: "exn option"
  nulls_distinct :: bool
  impl_unique :: bool

subsection \<open>Meaning of the statements\<close>

definition key_conflict :: "env \<Rightarrow> 'k option \<Rightarrow> bool" where
  "key_conflict e k = (k \<noteq> None \<or> \<not> nulls_distinct e)"

definition bench_match :: "string \<Rightarrow> nat option \<Rightarrow> benchmark \<Rightarrow> bool" where
  "bench_match n d b = (b_name b = n \<and> b_dataset_id b = d)"

definition result_match :: "nat \<Rightarrow> nat \<Rightarrow> string \<Rightarrow> benchmark_result \<Rightarrow> bool" where
  "result_match p b m r =
     (r_paper_id r = Some p \<and> r_benchmark_id r = Some b \<and> r_metric_name r = m)"

text \<open>
  \<open>run_stmt\<close> returns what \<^verbatim>\<open>cur.fetchone()\<close> gives after the statement (the \<^verbatim>\<open>id\<close> column of
  the returned row, or \<open>None\<close> when no row is returned) and the new database.
  \<^verbatim>\<open>ON CONFLICT ... DO NOTHING RETURNING id\<close> returns no row on a conflict;
  \<^verbatim>\<open>ON CONFLICT ... DO UPDATE SET task = EXCLUDED.task RETURNING id\<close> rewrites the task of the
  conflicting row and returns its id.
\<close>

fun run_stmt :: "env \<Rightarrow> database \<Rightarrow> stmt \<Rightarrow> nat option \<times> database" where
  "run_stmt e db (InsertPaper t a aid ua up) =
     (if list_ex (\<lambda>p. p_arxiv_id p = Some aid) (papers db) then (None, db)
      else (Some (next_id db),
            db\<lparr>papers := papers db @
                  [\<lparr>p_id = next_id db, p_title = t, p_abstract = a, p_arxiv_id = Some aid,
                    p_arxiv_url = ua, p_pdf_url = up\<rparr>],
               next_id := Suc (next_id db)\<rparr>))"
| "run_stmt e db (InsertDataset n d h) =
     (if key_conflict e n \<and> list_ex (\<lambda>r. d_name r = n) (datasets db) then (None, db)
      else (Some (next_id db),
            db\<lparr>datasets := datasets db @
                  [\<lparr>d_id = next_id db, d_name = n, d_description = d, d_homepage_url = h\<rparr>],
               next_id := Suc (next_id db)\<rparr>))"
| "run_stmt e db (SelectPaperId aid) =
     (map_option p_id (find (\<lambda>p. p_arxiv_id p = Some aid) (papers db)), db)"
| "run_stmt e db (InsertImplementation pid url fw off) =
     (if impl_unique e \<and>
         list_ex (\<lambda>i. i_paper_id i = Some pid \<and> i_github_url i = url) (implementations db)
      then (None, db)
      else (Some (next_id db),
            db\<lparr>implementations := implementations db @
                  [\<lparr>i_id = next_id db, i_paper_id = Some pid, i_github_url = url,
                    i_framework = fw, i_is_official = off\<rparr>],
               next_id := Suc (next_id db)\<rparr>))"
| "run_stmt e db (SelectDatasetId n) =
     (map_option d_id (find (\<lambda>r. d_name r = Some n) (datasets db)), db)"
| "run_stmt e db (UpsertBenchmark n did t) =
     (if key_conflict e did \<and> list_ex (bench_match n did) (benchmarks db)
      then (map_option b_id (find (bench_match n did) (benchmarks db)),
            db\<lparr>benchmarks :=
                  map (\<lambda>b. if bench_match n did b then b\<lparr>b_task := t\<rparr> else b) (benchmarks db)\<rparr>)
      else (Some (next_id db),
            db\<lparr>benchmarks := benchmarks db @
                  [\<lparr>b_id = next_id db, b_name = n, b_dataset_id = did, b_task = t\<rparr>],
               next_id := Suc (next_id db)\<rparr>))"
| "run_stmt e db (InsertBenchmarkResult pid bid m v) =
     (if list_ex (result_match pid bid m) (benchmark_results db) then (None, db)
      else (Some (next_id db),
            db\<lparr>benchmark_results := benchmark_results db @
                  [\<lparr>r_id = next_id db, r_paper_id = Some pid, r_benchmark_id = Some bid,
                    r_metric_name = m, r_metric_value = v\<rparr>],
               next_id := Suc (next_id db)\<rparr>))"

text \<open>\<^verbatim>\<open>cur.execute(...)\<close>: raises what the environment says, and runs the statement otherwise.\<close>

definition execute :: "env \<Rightarrow> database \<Rightarrow> stmt \<Rightarrow> exn + (nat option \<times> database)" where
  "execute e db s = (case faults e s of Some x \<Rightarrow> Inl x | None \<Rightarrow> Inr (run_stmt e db s))"

subsection \<open>The state of a run\<close>

text \<open>
  What a run changes: the checkpoint file, the database, the dictionary object
  \<^verbatim>\<open>checkpoint\<close> that \<^verbatim>\<open>main\<close> creates and every loader mutates in place (\<open>None\<close> is the
  loaders' default argument \<^verbatim>\<open>checkpoint=None\<close>), and the counters of the running loader.
  \<open>attempts\<close> is not a variable of the script: it records, in order, the source stream
  and the row index each time the body of a row loop is entered, so that statements about
  which rows are processed can be made.
\<close>

datatype stream = Papers | Datasets | Links | Evaluation

record state =
  ckpt_file :: "checkpoint option"
  db :: database
  ckpt :: "checkpoint option"
  inserted :: nat
  skipped :: nat
  inserted_benchmarks :: nat
  inserted_results :: nat
  attempts :: "(stream \<times> nat) list"

subsection \<open>Checkpoint store\<close>

definition load_checkpoint :: "state \<Rightarrow> checkpoint" where
  "load_checkpoint s =
     (case ckpt_file s of
        Some c \<Rightarrow> c
      | None \<Rightarrow> \<lparr>papers_offset = 0, datasets_offset = 0, links_offset = 0, eval_offset = 0,
                 papers_complete = False, datasets_complete = False, links_complete = False,
                 eval_complete = False\<rparr>)"

definition save_checkpoint :: "checkpoint \<Rightarrow> state \<Rightarrow> state" where
  "save_checkpoint c s = s\<lparr>ckpt_file := Some c\<rparr>"

definition clear_checkpoint :: "state \<Rightarrow> state" where
  "clear_checkpoint s = (if ckpt_file s \<noteq> None then s\<lparr>ckpt_file := None\<rparr> else s)"

text \<open>
  \<^verbatim>\<open>if checkpoint is not None: checkpoint[...] = ...; save_checkpoint(checkpoint)\<close>:
  the dictionary is changed in place and then written to the file.
\<close>

definition update_and_save :: "(checkpoint \<Rightarrow> checkpoint) \<Rightarrow> state \<Rightarrow> state" where
  "update_and_save upd s =
     (case ckpt s of
        None \<Rightarrow> s
      | Some c \<Rightarrow> save_checkpoint (upd c) (s\<lparr>ckpt := Some (upd c)\<rparr>))"

subsection \<open>Loops\<close>

text \<open>
  \<^verbatim>\<open>range(i, stop, step)\<close> for natural numbers and a positive step. With step 0 Python raises
  \<^verbatim>\<open>ValueError\<close>; the loaders test for that before they call \<open>py_range\<close>.
\<close>

function py_range :: "nat \<Rightarrow> nat \<Rightarrow> nat \<Rightarrow> nat list" where
  "py_range i stop step =
     (if step = 0 \<or> stop \<le> i then [] else i # py_range (i + step) stop step)"
  by pat_completeness auto
termination
  by (relation "measure (\<lambda>(i, stop, step). stop - i)") auto

declare py_range.simps [simp del]

text \<open>\<^verbatim>\<open>df.iloc[i:j]\<close> on the rows paired with their index.\<close>

definition iloc :: "'a list \<Rightarrow> nat \<Rightarrow> nat \<Rightarrow> 'a list" where
  "iloc df i j = take (j - i) (drop i df)"

text \<open>
  \<^verbatim>\<open>for _, row in batch.iterrows(): ...\<close> where the body may raise: the loop stops at the first
  exception that leaves the body, with the state reached then.
\<close>

fun for_rows :: "('s \<Rightarrow> 'a \<Rightarrow> exn option \<times> 's) \<Rightarrow> 's \<Rightarrow> 'a list \<Rightarrow> exn option \<times> 's" where
  "for_rows body s [] = (None, s)"
| "for_rows body s (x # xs) =
     (case body s x of
        (Some ex, s') \<Rightarrow> (Some ex, s')
      | (None, s') \<Rightarrow> for_rows body s' xs)"

text \<open>
  \<^verbatim>\<open>try: ... except Exception as e: print(...); continue\<close> around the body of a row:
  an \<^verbatim>\<open>Exception\<close> ends the row with the state reached, a \<^verbatim>\<open>KeyboardInterrupt\<close> passes.
\<close>

definition except_continue :: "exn option \<times> state \<Rightarrow> exn option \<times> state" where
  "except_continue r = (case r of (Some Exception, s) \<Rightarrow> (None, s) | _ \<Rightarrow> r)"

definition enter_row :: "stream \<Rightarrow> nat \<Rightarrow> state \<Rightarrow> state" where
  "enter_row st i s = s\<lparr>attempts := attempts s @ [(st, i)]\<rparr>"

text \<open>
  The loop over the batch starts. After the rows of a batch: \<^verbatim>\<open>conn.commit()\<close>, then the
  offset \<^verbatim>\<open>i + batch_size\<close> is written into the checkpoint and saved. When an exception leaves
  a batch, the batch is not committed: the database is the one of the last commit, which
  is the one the batch started from.
\<close>

fun for_batches ::
  "(state \<Rightarrow> nat \<times> 'r \<Rightarrow> exn option \<times> state) \<Rightarrow> (nat \<Rightarrow> checkpoint \<Rightarrow> checkpoint) \<Rightarrow>
   nat \<Rightarrow> (nat \<times> 'r) list \<Rightarrow> state \<Rightarrow> nat list \<Rightarrow> exn option \<times> state" where
  "for_batches body set_offset batch_size df s [] = (None, s)"
| "for_batches body set_offset batch_size df s (i # starts) =
     (case for_rows body s (iloc df i (i + batch_size)) of
        (Some ex, s') \<Rightarrow> (Some ex, s'\<lparr>db := db s\<rparr>)
      | (None, s') \<Rightarrow>
          for_batches body set_offset batch_size df
            (update_and_save (set_offset (i + batch_size)) s') starts)"

subsection \<open>Papers\<close>

definition papers_body :: "env \<Rightarrow> state \<Rightarrow> paper_row \<Rightarrow> exn option \<times> state" where
  "papers_body e s row =
     (case arxiv_id row of
        None \<Rightarrow> (None, s\<lparr>skipped := Suc (skipped s)\<rparr>)
      | Some aid \<Rightarrow>
          (case execute e (db s)
                  (InsertPaper (title row) (abstract row) aid (url_abs row) (url_pdf row)) of
             Inl ex \<Rightarrow> (Some ex, s)
           | Inr (Some new_id, db') \<Rightarrow> (None, s\<lparr>db := db', inserted := Suc (inserted s)\<rparr>)
           | Inr (None, db') \<Rightarrow> (None, s\<lparr>db := db', skipped := Suc (skipped s)\<rparr>)))"

definition papers_row :: "env \<Rightarrow> state \<Rightarrow> nat \<times> paper_row \<Rightarrow> exn option \<times> state" where
  "papers_row e s ir = except_continue (papers_body e (enter_row Papers (fst ir) s) (snd ir))"

definition complete_flag :: "(checkpoint \<Rightarrow> bool) \<Rightarrow> state \<Rightarrow> bool" where
  "complete_flag fl s = (case ckpt s of Some c \<Rightarrow> fl c | None \<Rightarrow> False)"

definition start_offset :: "(checkpoint \<Rightarrow> nat) \<Rightarrow> state \<Rightarrow> nat" where
  "start_offset off s = (case ckpt s of Some c \<Rightarrow> off c | None \<Rightarrow> 0)"

definition load_papers :: "env \<Rightarrow> nat \<Rightarrow> state \<Rightarrow> (exn + nat) \<times> state" where
  "load_papers e batch_size s =
     (case papers_src e of
        None \<Rightarrow> (Inr 0, s)
      | Some df \<Rightarrow>
          if complete_flag papers_complete s then (Inr 0, s)
          else if batch_size = 0 then (Inl Exception, s\<lparr>inserted := 0, skipped := 0\<rparr>)
          else
            (case for_batches (papers_row e) (\<lambda>v c. c\<lparr>papers_offset := v\<rparr>) batch_size
                    (enumerate 0 df) (s\<lparr>inserted := 0, skipped := 0\<rparr>)
                    (py_range (start_offset papers_offset s) (length df) batch_size) of
               (Some ex, s') \<Rightarrow> (Inl ex, s')
             | (None, s') \<Rightarrow>
                 (Inr (inserted s'),
                  update_and_save (\<lambda>c. c\<lparr>papers_complete := True\<rparr>) s')))"

subsection \<open>Datasets\<close>

definition datasets_body :: "env \<Rightarrow> state \<Rightarrow> dataset_row \<Rightarrow> exn option \<times> state" where
  "datasets_body e s row =
     (case execute e (db s) (InsertDataset (name row) (description row) (homepage row)) of
        Inl ex \<Rightarrow> (Some ex, s)
      | Inr (Some new_id, db') \<Rightarrow> (None, s\<lparr>db := db', inserted := Suc (inserted s)\<rparr>)
      | Inr (None, db') \<Rightarrow> (None, s\<lparr>db := db', skipped := Suc (skipped s)\<rparr>))"

definition datasets_row :: "env \<Rightarrow> state \<Rightarrow> nat \<times> dataset_row \<Rightarrow> exn option \<times> state" where
  "datasets_row e s ir =
     except_continue (datasets_body e (enter_row Datasets (fst ir) s) (snd ir))"

definition load_datasets :: "env \<Rightarrow> nat \<Rightarrow> state \<Rightarrow> (exn + nat) \<times> state" where
  "load_datasets e batch_size s =
     (case datasets_src e of
        None \<Rightarrow> (Inr 0, s)
      | Some df \<Rightarrow>
          if complete_flag datasets_complete s then (Inr 0, s)
          else if batch_size = 0 then (Inl Exception, s\<lparr>inserted := 0, skipped := 0\<rparr>)
          else
            (case for_batches (datasets_row e) (\<lambda>v c. c\<lparr>datasets_offset := v\<rparr>) batch_size
                    (enumerate 0 df) (s\<lparr>inserted := 0, skipped := 0\<rparr>)
                    (py_range (start_offset datasets_offset s) (length df) batch_size) of
               (Some ex, s') \<Rightarrow> (Inl ex, s')
             | (None, s') \<Rightarrow>
                 (Inr (inserted s'),
                  update_and_save (\<lambda>c. c\<lparr>datasets_complete := True\<rparr>) s')))"

subsection \<open>Code links\<close>

text \<open>
  \<^verbatim>\<open>if not github_url or pd.isna(arxiv_id)\<close>: a missing or empty \<^verbatim>\<open>repo_url\<close> is false, a missing
  \<^verbatim>\<open>paper_arxiv_id\<close> is what \<^verbatim>\<open>pd.isna\<close> tests.
\<close>

definition links_body :: "env \<Rightarrow> state \<Rightarrow> link_row \<Rightarrow> exn option \<times> state" where
  "links_body e s row =
     (case (repo_url row, paper_arxiv_id row) of
        (Some github_url, Some aid) \<Rightarrow>
          if github_url = [] then (None, s\<lparr>skipped := Suc (skipped s)\<rparr>)
          else
            (case execute e (db s) (SelectPaperId aid) of
               Inl ex \<Rightarrow> (Some ex, s)
             | Inr (None, db1) \<Rightarrow> (None, s\<lparr>db := db1, skipped := Suc (skipped s)\<rparr>)
             | Inr (Some paper_id, db1) \<Rightarrow>
                 (case execute e db1
                         (InsertImplementation paper_id github_url (framework row)
                            (is_official row)) of
                    Inl ex \<Rightarrow> (Some ex, s\<lparr>db := db1\<rparr>)
                  | Inr (Some new_id, db2) \<Rightarrow>
                      (None, s\<lparr>db := db2, inserted := Suc (inserted s)\<rparr>)
                  | Inr (None, db2) \<Rightarrow>
                      (None, s\<lparr>db := db2, skipped := Suc (skipped s)\<rparr>)))
      | _ \<Rightarrow> (None, s\<lparr>skipped := Suc (skipped s)\<rparr>))"

definition links_row :: "env \<Rightarrow> state \<Rightarrow> nat \<times> link_row \<Rightarrow> exn option \<times> state" where
  "links_row e s ir = except_continue (links_body e (enter_row Links (fst ir) s) (snd ir))"

definition load_code_links :: "env \<Rightarrow> nat \<Rightarrow> state \<Rightarrow> (exn + nat) \<times> state" where
  "load_code_links e batch_size s =
     (case links_src e of
        None \<Rightarrow> (Inr 0, s)
      | Some df \<Rightarrow>
          if complete_flag links_complete s then (Inr 0, s)
          else if batch_size = 0 then (Inl Exception, s\<lparr>inserted := 0, skipped := 0\<rparr>)
          else
            (case for_batches (links_row e) (\<lambda>v c. c\<lparr>links_offset := v\<rparr>) batch_size
                    (enumerate 0 df) (s\<lparr>inserted := 0, skipped := 0\<rparr>)
                    (py_range (start_offset links_offset s) (length df) batch_size) of
               (Some ex, s') \<Rightarrow> (Inl ex, s')
             | (None, s') \<Rightarrow>
                 (Inr (inserted s'),
                  update_and_save (\<lambda>c. c\<lparr>links_complete := True\<rparr>) s')))"

subsection \<open>Evaluation records\<close>

text \<open>
  The result part of a row: \<^verbatim>\<open>if paper_id and metric_name and pd.notna(metric_value)\<close>, then
  \<^verbatim>\<open>float(metric_value)\<close> and the insert inside \<^verbatim>\<open>try ... except (ValueError, TypeError): pass\<close>.
  An id is a number, false when it is 0.
\<close>

definition eval_result :: "env \<Rightarrow> state \<Rightarrow> eval_row \<Rightarrow> nat \<Rightarrow> nat option \<Rightarrow> exn option \<times> state"
  where
  "eval_result e s row benchmark_id paper_id =
     (case (paper_id, metric row, metric_value row) of
        (Some pid, Some metric_name, MetricNumber v) \<Rightarrow>
          if pid = 0 \<or> metric_name = [] then (None, s)
          else
            (case execute e (db s) (InsertBenchmarkResult pid benchmark_id metric_name v) of
               Inl ex \<Rightarrow> (Some ex, s)
             | Inr (Some new_id, db') \<Rightarrow>
                 (None, s\<lparr>db := db', inserted_results := Suc (inserted_results s)\<rparr>)
             | Inr (None, db') \<Rightarrow> (None, s\<lparr>db := db'\<rparr>))
      | _ \<Rightarrow> (None, s))"

text \<open>
  The paper lookup: \<^verbatim>\<open>paper_id = None\<close>, replaced by the result of the select when the row
  has a \<^verbatim>\<open>paper_arxiv_id\<close>.
\<close>

definition eval_paper :: "env \<Rightarrow> state \<Rightarrow> eval_row \<Rightarrow> nat \<Rightarrow> exn option \<times> state" where
  "eval_paper e s row benchmark_id =
     (case eval_paper_arxiv_id row of
        None \<Rightarrow> eval_result e s row benchmark_id None
      | Some aid \<Rightarrow>
          (case execute e (db s) (SelectPaperId aid) of
             Inl ex \<Rightarrow> (Some ex, s)
           | Inr (paper_id, db') \<Rightarrow> eval_result e (s\<lparr>db := db'\<rparr>) row benchmark_id paper_id))"

text \<open>
  The benchmark part. \<^verbatim>\<open>cur.fetchone()[0]\<close> raises \<^verbatim>\<open>TypeError\<close> if the statement returned
  no row; the counter of benchmarks is incremented after every upsert that returned one.
\<close>

definition eval_body :: "env \<Rightarrow> state \<Rightarrow> eval_row \<Rightarrow> exn option \<times> state" where
  "eval_body e s row =
     (case (dataset row, task row) of
        (Some dataset_name, Some tsk) \<Rightarrow>
          (case execute e (db s) (SelectDatasetId dataset_name) of
             Inl ex \<Rightarrow> (Some ex, s)
           | Inr (dataset_id, db1) \<Rightarrow>
               (case execute e db1 (UpsertBenchmark (dataset_name @ '' - '' @ tsk) dataset_id tsk) of
                  Inl ex \<Rightarrow> (Some ex, s\<lparr>db := db1\<rparr>)
                | Inr (None, db2) \<Rightarrow> (Some Exception, s\<lparr>db := db2\<rparr>)
                | Inr (Some benchmark_id, db2) \<Rightarrow>
                    eval_paper e
                      (s\<lparr>db := db2, inserted_benchmarks := Suc (inserted_benchmarks s)\<rparr>)
                      row benchmark_id))
      | _ \<Rightarrow> (None, s\<lparr>skipped := Suc (skipped s)\<rparr>))"

definition eval_row_step :: "env \<Rightarrow> state \<Rightarrow> nat \<times> eval_row \<Rightarrow> exn option \<times> state" where
  "eval_row_step e s ir =
     except_continue (eval_body e (enter_row Evaluation (fst ir) s) (snd ir))"

definition load_evaluation_tables :: "env \<Rightarrow> nat \<Rightarrow> state \<Rightarrow> (exn + nat) \<times> state" where
  "load_evaluation_tables e batch_size s =
     (case eval_src e of
        None \<Rightarrow> (Inr 0, s)
      | Some df \<Rightarrow>
          if complete_flag eval_complete s then (Inr 0, s)
          else if batch_size = 0
          then (Inl Exception, s\<lparr>inserted_benchmarks := 0, inserted_results := 0, skipped := 0\<rparr>)
          else
            (case for_batches (eval_row_step e) (\<lambda>v c. c\<lparr>eval_offset := v\<rparr>) batch_size
                    (enumerate 0 df)
                    (s\<lparr>inserted_benchmarks := 0, inserted_results := 0, skipped := 0\<rparr>)
                    (py_range (start_offset eval_offset s) (length df) batch_size) of
               (Some ex, s') \<Rightarrow> (Inl ex, s')
             | (None, s') \<Rightarrow>
                 (Inr (inserted_results s'),
                  update_and_save (\<lambda>c. c\<lparr>eval_complete := True\<rparr>) s')))"

subsection \<open>The orchestrator\<close>

record args =
  fresh :: bool
  continue_load :: bool
  clear_checkpoint_arg :: bool

datatype status = Complete | ResumeAt nat

text \<open>The lines \<^verbatim>\<open>main\<close> prints, one constructor for each \<^verbatim>\<open>print\<close> (or group printed together).\<close>

datatype msg =
    Banner
  | CheckpointCleared
  | NoCheckpointFound
  | DataDirNotFound
  | StartingFreshIgnoringCheckpoint
  | FoundExistingCheckpoint status status status status
  | StartingFreshNoCheckpoint
  | Connected
  | Summary nat nat nat nat
  | AllDataLoaded
  | ClearingCheckpointFile
  | InterruptedByUser
  | ErrorMessage
  | ProgressSavedRunAgainToResume
  | Traceback

definition status_of :: "bool \<Rightarrow> nat \<Rightarrow> status" where
  "status_of is_complete off = (if is_complete then Complete else ResumeAt off)"

definition resume_report :: "checkpoint \<Rightarrow> msg" where
  "resume_report c =
     (if papers_complete c \<or> datasets_complete c \<or> links_complete c \<or> eval_complete c
      then FoundExistingCheckpoint
             (status_of (papers_complete c) (papers_offset c))
             (status_of (datasets_complete c) (datasets_offset c))
             (status_of (links_complete c) (links_offset c))
             (status_of (eval_complete c) (eval_offset c))
      else StartingFreshNoCheckpoint)"

text \<open>
  The body of the \<^verbatim>\<open>try\<close> in \<^verbatim>\<open>main\<close>: connect, the four loaders in order with the default
  batch size and the shared checkpoint dictionary, the summary, and the clearing of the
  checkpoint. The result says whether an exception left the body, what was printed, and
  the state.
\<close>

definition try_body :: "env \<Rightarrow> state \<Rightarrow> exn option \<times> msg list \<times> state" where
  "try_body e s =
     (case connect_fault e of
        Some ex \<Rightarrow> (Some ex, [], s)
      | None \<Rightarrow>
          (case load_papers e 1000 s of
             (Inl ex, s1) \<Rightarrow> (Some ex, [Connected], s1)
           | (Inr papers_count, s1) \<Rightarrow>
               (case load_datasets e 1000 s1 of
                  (Inl ex, s2) \<Rightarrow> (Some ex, [Connected], s2)
                | (Inr datasets_count, s2) \<Rightarrow>
                    (case load_code_links e 1000 s2 of
                       (Inl ex, s3) \<Rightarrow> (Some ex, [Connected], s3)
                     | (Inr links_count, s3) \<Rightarrow>
                         (case load_evaluation_tables e 1000 s3 of
                            (Inl ex, s4) \<Rightarrow> (Some ex, [Connected], s4)
                          | (Inr eval_count, s4) \<Rightarrow>
                              (None,
                               [Connected,
                                Summary papers_count datasets_count links_count eval_count,
                                AllDataLoaded, ClearingCheckpointFile],
                               clear_checkpoint s4))))))"

text \<open>
  The block \<^verbatim>\<open># Load checkpoint\<close> of \<^verbatim>\<open>main\<close>: with \<^verbatim>\<open>--fresh\<close> the checkpoint file is removed
  first; the dictionary \<^verbatim>\<open>checkpoint\<close> is what \<^verbatim>\<open>load_checkpoint()\<close> returns then.
\<close>

definition main_start :: "args \<Rightarrow> state \<Rightarrow> state" where
  "main_start a s =
     (let s0 = (if fresh a then clear_checkpoint s else s)
      in s0\<lparr>ckpt := Some (load_checkpoint s0)\<rparr>)"

definition start_report :: "args \<Rightarrow> state \<Rightarrow> msg" where
  "start_report a s =
     (if fresh a then StartingFreshIgnoringCheckpoint else resume_report (load_checkpoint s))"

text \<open>\<^verbatim>\<open>main\<close> returns in every case: both \<^verbatim>\<open>except\<close> clauses print and fall through.\<close>

definition main :: "args \<Rightarrow> env \<Rightarrow> state \<Rightarrow> msg list \<times> state" where
  "main a e s =
     (if clear_checkpoint_arg a then
        (if ckpt_file s \<noteq> None then ([Banner, CheckpointCleared], clear_checkpoint s)
         else ([Banner, NoCheckpointFound], s))
      else if \<not> data_dir_exists e then ([Banner, DataDirNotFound], s)
      else
        (case try_body e (main_start a s) of
           (None, m, s') \<Rightarrow> ([Banner, start_report a s] @ m, s')
         | (Some KeyboardInterrupt, m, s') \<Rightarrow>
             ([Banner, start_report a s] @ m @
                [InterruptedByUser, ProgressSavedRunAgainToResume], s')
         | (Some Exception, m, s') \<Rightarrow>
             ([Banner, start_report a s] @ m @
                [ErrorMessage, ProgressSavedRunAgainToResume, Traceback], s')))"


section \<open>Notions used in the statements and proofs\<close>

text \<open>
  The rows a loader still has to process according to a checkpoint: none when the source
  file is absent or the stream is marked complete, and the indices from the saved offset
  to the end of the source otherwise.
\<close>

definition stream_pending :: "stream \<Rightarrow> 'a list option \<Rightarrow> bool \<Rightarrow> nat \<Rightarrow> (stream \<times> nat) list" where
  "stream_pending st src is_complete off =
     (case src of
        None \<Rightarrow> []
      | Some df \<Rightarrow> if is_complete then [] else map (Pair st) [off..<length df])"

definition pending :: "env \<Rightarrow> checkpoint \<Rightarrow> (stream \<times> nat) list" where
  "pending e c =
     stream_pending Papers (papers_src e) (papers_complete c) (papers_offset c) @
     stream_pending Datasets (datasets_src e) (datasets_complete c) (datasets_offset c) @
     stream_pending Links (links_src e) (links_complete c) (links_offset c) @
     stream_pending Evaluation (eval_src e) (eval_complete c) (eval_offset c)"

text \<open>
  The rows a loader has accounted for in its counters: inserted or skipped for papers,
  datasets and code links; benchmark upserted or skipped for evaluation records.
\<close>

definition handled :: "state \<Rightarrow> nat" where
  "handled s = inserted s + skipped s"

definition eval_handled :: "state \<Rightarrow> nat" where
  "eval_handled s = inserted_benchmarks s + skipped s"

text \<open>
  A row step is well behaved when it records its row and leaves the checkpoint alone.
\<close>

definition row_step_ok :: "stream \<Rightarrow> (state \<Rightarrow> nat \<times> 'r \<Rightarrow> exn option \<times> state) \<Rightarrow> bool" where
  "row_step_ok st step =
     (\<forall>s i r. attempts (snd (step s (i, r))) = attempts s @ [(st, i)] \<and>
             ckpt (snd (step s (i, r))) = ckpt s \<and>
             ckpt_file (snd (step s (i, r))) = ckpt_file s)"

text \<open>
  What a run of the batch loop does to the checkpoint: nothing, or the dictionary and the
  file both hold the old dictionary with a new offset.
\<close>

definition ckpt_rel :: "(nat \<Rightarrow> checkpoint \<Rightarrow> checkpoint) \<Rightarrow> state \<Rightarrow> state \<Rightarrow> bool" where
  "ckpt_rel set_off s s' =
     ((ckpt s' = ckpt s \<and> ckpt_file s' = ckpt_file s) \<or>
      (\<exists>c j. ckpt s = Some c \<and> ckpt s' = Some (set_off j c) \<and>
             ckpt_file s' = Some (set_off j c)))"

text \<open>
  The common shape of the four loaders, with the parts in which they differ as parameters.
  Each loader is shown equal to an instance of it below, so that the loops are reasoned
  about once.
\<close>

definition batch_loader ::
  "'r list option \<Rightarrow> (checkpoint \<Rightarrow> bool) \<Rightarrow> (checkpoint \<Rightarrow> nat) \<Rightarrow>
   (state \<Rightarrow> nat \<times> 'r \<Rightarrow> exn option \<times> state) \<Rightarrow> (nat \<Rightarrow> checkpoint \<Rightarrow> checkpoint) \<Rightarrow>
   (checkpoint \<Rightarrow> checkpoint) \<Rightarrow> (state \<Rightarrow> state) \<Rightarrow> (state \<Rightarrow> nat) \<Rightarrow>
   nat \<Rightarrow> state \<Rightarrow> (exn + nat) \<times> state" where
  "batch_loader src fl off step set_off set_done reset result bs s =
     (case src of
        None \<Rightarrow> (Inr 0, s)
      | Some df \<Rightarrow>
          if complete_flag fl s then (Inr 0, s)
          else if bs = 0 then (Inl Exception, reset s)
          else
            (case for_batches step set_off bs (enumerate 0 df) (reset s)
                    (py_range (start_offset off s) (length df) bs) of
               (Some ex, s') \<Rightarrow> (Inl ex, s')
             | (None, s') \<Rightarrow> (Inr (result s'), update_and_save set_done s')))"

definition reset_ok :: "(state \<Rightarrow> state) \<Rightarrow> bool" where
  "reset_ok reset =
     (\<forall>s. attempts (reset s) = attempts s \<and> ckpt (reset s) = ckpt s \<and>
          ckpt_file (reset s) = ckpt_file s \<and> db (reset s) = db s)"


text \<open>The table \<^verbatim>\<open>benchmark_results\<close> of \<open>d'\<close> is the one of \<open>d\<close> with rows added at the end.\<close>

definition results_grow :: "database \<Rightarrow> database \<Rightarrow> bool" where
  "results_grow d d' = (\<exists>ys. benchmark_results d' = benchmark_results d @ ys)"

section \<open>Concrete scenarios\<close>

text \<open>
  An empty database, a state before anything has run, and an environment with a reachable
  server, no source files and no failing statement. The scenarios below change single
  fields of these.
\<close>

definition empty_db :: database where
  "empty_db = \<lparr>papers = [], datasets = [], implementations = [], benchmarks = [],
               benchmark_results = [], next_id = 1\<rparr>"

definition initial_state :: state where
  "initial_state = \<lparr>ckpt_file = None, db = empty_db, ckpt = None, inserted = 0, skipped = 0,
                    inserted_benchmarks = 0, inserted_results = 0, attempts = []\<rparr>"

definition quiet_env :: env where
  "quiet_env = \<lparr>database_url_set = True, data_dir_exists = True, papers_src = None,
                datasets_src = None, links_src = None, eval_src = None,
                faults = (\<lambda>q. None), connect_fault = None, nulls_distinct = True,
                impl_unique = False\<rparr>"

definition default_checkpoint :: checkpoint where
  "default_checkpoint = \<lparr>papers_offset = 0, datasets_offset = 0, links_offset = 0,
                         eval_offset = 0, papers_complete = False, datasets_complete = False,
                         links_complete = False, eval_complete = False\<rparr>"

definition no_args :: args where
  "no_args = \<lparr>fresh = False, continue_load = False, clear_checkpoint_arg = False\<rparr>"

text \<open>
  The three papers of the specification's scenario: \<^verbatim>\<open>a1/P1\<close>, a paper without an arXiv id,
  and a second paper with the arXiv id \<^verbatim>\<open>a1\<close>.
\<close>

definition three_papers :: "paper_row list" where
  "three_papers =
     [\<lparr>arxiv_id = Some ''a1'', title = Some ''P1'', abstract = None, url_abs = None,
        url_pdf = None\<rparr>,
      \<lparr>arxiv_id = None, title = Some ''P2'', abstract = None, url_abs = None, url_pdf = None\<rparr>,
      \<lparr>arxiv_id = Some ''a1'', title = Some ''P1-dup'', abstract = None, url_abs = None,
        url_pdf = None\<rparr>]"



text \<open>
  A server that rejects a paper without a title (a \<^verbatim>\<open>NOT NULL\<close> column, say), a paper
  without a title, and an evaluation record that names no paper.
\<close>

definition rejecting_env :: env where
  "rejecting_env =
     quiet_env\<lparr>faults :=
       (\<lambda>q. case q of
              InsertPaper t a aid ua up \<Rightarrow> (if t = None then Some Exception else None)
            | _ \<Rightarrow> None)\<rparr>"

definition untitled_paper :: paper_row where
  "untitled_paper =
     \<lparr>arxiv_id = Some ''a2'', title = None, abstract = None, url_abs = None, url_pdf = None\<rparr>"

definition bare_eval_row :: eval_row where
  "bare_eval_row =
     \<lparr>dataset = Some ''D'', task = Some ''T'', eval_paper_arxiv_id = None,
      metric = Some ''acc'', metric_value = MetricNumber 1\<rparr>"


definition scored_db :: database where
  "scored_db =
     \<lparr>papers = [\<lparr>p_id = 2, p_title = Some ''P1'', p_abstract = None, p_arxiv_id = Some ''a1'',
                  p_arxiv_url = None, p_pdf_url = None\<rparr>],
      datasets = [\<lparr>d_id = 1, d_name = Some ''D'', d_description = None, d_homepage_url = None\<rparr>],
      implementations = [],
      benchmarks = [\<lparr>b_id = 3, b_name = ''D - T'', b_dataset_id = Some 1, b_task = ''OLD''\<rparr>],
      benchmark_results = [\<lparr>r_id = 4, r_paper_id = Some 2, r_benchmark_id = Some 3,
                             r_metric_name = ''acc'', r_metric_value = 1\<rparr>],
      next_id = 5\<rparr>"

definition rescoring_row :: eval_row where
  "rescoring_row =
     \<lparr>dataset = Some ''D'', task = Some ''T'', eval_paper_arxiv_id = Some ''a1'',
      metric = Some ''acc'', metric_value = MetricNumber 2\<rparr>"


definition four_sources_env :: env where
  "four_sources_env =
     quiet_env\<lparr>papers_src := Some three_papers, datasets_src := Some [],
               links_src := Some [], eval_src := Some []\<rparr>"

definition datasets_only_env :: env where
  "datasets_only_env =
     quiet_env\<lparr>datasets_src :=
                 Some [\<lparr>name = Some ''D'', description = None, homepage = None\<rparr>]\<rparr>"

section \<open>The loops\<close>

lemma py_range_stop: "step = 0 \<or> stop \<le> i \<Longrightarrow> py_range i stop step = []"
  by (subst py_range.simps) simp

lemma py_range_next:
  "0 < step \<Longrightarrow> i < stop \<Longrightarrow> py_range i stop step = i # py_range (i + step) stop step"
  by (subst py_range.simps) simp

lemma except_continue_simps:
  "except_continue (None, s) = (None, s)"
  "except_continue (Some Exception, s) = (None, s)"
  "except_continue (Some KeyboardInterrupt, s) = (Some KeyboardInterrupt, s)"
  by (simp_all add: except_continue_def)

lemma snd_except_continue: "snd (except_continue r) = snd r"
  by (simp add: except_continue_def split: prod.splits option.splits exn.splits)

lemma row_step_okD:
  assumes "row_step_ok st step" "step s (i, r) = (x, s1)"
  shows "attempts s1 = attempts s @ [(st, i)]" "ckpt s1 = ckpt s" "ckpt_file s1 = ckpt_file s"
proof -
  have e: "s1 = snd (step s (i, r))" using assms(2) by simp
  from assms(1) have "attempts (snd (step s (i, r))) = attempts s @ [(st, i)] \<and>
             ckpt (snd (step s (i, r))) = ckpt s \<and>
             ckpt_file (snd (step s (i, r))) = ckpt_file s"
    unfolding row_step_ok_def by blast
  then show "attempts s1 = attempts s @ [(st, i)]" "ckpt s1 = ckpt s" "ckpt_file s1 = ckpt_file s"
    unfolding e by simp_all
qed

lemma for_rows_attempts:
  assumes ok: "row_step_ok st step"
  shows "\<exists>j\<le>length xs. attempts (snd (for_rows step s xs)) = attempts s @ map (\<lambda>ir. (st, fst ir)) (take j xs)
          \<and> (fst (for_rows step s xs) = None \<longrightarrow> j = length xs)"
proof (induction xs arbitrary: s)
  case Nil
  then show ?case by simp
next
  case (Cons x xs)
  obtain i r where x: "x = (i, r)" by (cases x)
  obtain ex s1 where st: "step s (i, r) = (ex, s1)" by (cases "step s (i, r)")
  have a1: "attempts s1 = attempts s @ [(st, i)]"
    by (rule row_step_okD(1)[OF ok st])
  show ?case
  proof (cases ex)
    case None
    obtain j where j: "j \<le> length xs"
      "attempts (snd (for_rows step s1 xs)) = attempts s1 @ map (\<lambda>ir. (st, fst ir)) (take j xs)" 
      "fst (for_rows step s1 xs) = None \<longrightarrow> j = length xs"
      using Cons.IH[of s1] by auto
    have c1: "Suc j \<le> length (x # xs)" using j(1) by simp
    have c2: "attempts (snd (for_rows step s (x # xs))) = attempts s @ map (\<lambda>ir. (st, fst ir)) (take (Suc j) (x # xs))"
      using j(2) a1 st None x by simp
    have c3: "fst (for_rows step s (x # xs)) = None \<longrightarrow> Suc j = length (x # xs)"
      using j(3) st None x by simp
    show ?thesis
      by (rule exI[of _ "Suc j"]) (intro conjI c1 c2 c3)
  next
    case (Some e)
    have c1: "Suc 0 \<le> length (x # xs)" by simp
    have c2: "attempts (snd (for_rows step s (x # xs))) = attempts s @ map (\<lambda>ir. (st, fst ir)) (take (Suc 0) (x # xs))"
      using a1 st Some x by simp
    have c3: "fst (for_rows step s (x # xs)) = None \<longrightarrow> Suc 0 = length (x # xs)"
      using st Some x by simp
    show ?thesis
      by (rule exI[of _ "Suc 0"]) (intro conjI c1 c2 c3)
  qed
qed

lemma for_rows_ckpt:
  assumes ok: "row_step_ok st step"
  shows "ckpt (snd (for_rows step s xs)) = ckpt s \<and> ckpt_file (snd (for_rows step s xs)) = ckpt_file s"
proof (induction xs arbitrary: s)
  case Nil
  then show ?case by simp
next
  case (Cons x xs)
  obtain i r where x: "x = (i, r)" by (cases x)
  obtain ex s1 where st: "step s (i, r) = (ex, s1)" by (cases "step s (i, r)")
  have a1: "ckpt s1 = ckpt s" "ckpt_file s1 = ckpt_file s"
    using row_step_okD[OF ok st] by simp_all
  show ?case using Cons.IH[of s1] a1 st x by (cases ex) simp_all
qed

lemma update_and_save_fields:
  "attempts (update_and_save f s) = attempts s"
  "db (update_and_save f s) = db s"
  "inserted (update_and_save f s) = inserted s"
  "skipped (update_and_save f s) = skipped s"
  "inserted_benchmarks (update_and_save f s) = inserted_benchmarks s"
  "inserted_results (update_and_save f s) = inserted_results s"
  by (simp_all add: update_and_save_def save_checkpoint_def split: option.splits)

lemma update_and_save_Some:
  "ckpt s = Some c \<Longrightarrow> ckpt (update_and_save f s) = Some (f c)"
  "ckpt s = Some c \<Longrightarrow> ckpt_file (update_and_save f s) = Some (f c)"
  by (simp_all add: update_and_save_def save_checkpoint_def)

lemma update_and_save_None: "ckpt s = None \<Longrightarrow> update_and_save f s = s"
  by (simp add: update_and_save_def)

lemma iloc_enumerate_length:
  "length (iloc (enumerate 0 rows) i (i + bs)) = min bs (length rows - i)"
  by (simp add: iloc_def)

lemma iloc_enumerate_take:
  assumes "j \<le> length (iloc (enumerate 0 rows) i (i + bs))"
  shows "map fst (take j (iloc (enumerate 0 rows) i (i + bs))) = [i..<i + j]"
proof -
  have j: "j \<le> bs" "j \<le> length rows - i" using assms by (simp_all add: iloc_def)
  have "map fst (take j (iloc (enumerate 0 rows) i (i + bs)))
          = take j (take bs (drop i (map fst (enumerate 0 rows))))"
    by (simp only: iloc_def take_map drop_map add_diff_cancel_left')
  also have "\<dots> = take j (drop i [0..<length rows])"
    using j(1) by (simp only: take_take min_absorb1 map_fst_enumerate add_0)
  also have "\<dots> = take j [i..<length rows]"
    by (simp add: drop_upt)
  also have "\<dots> = [i..<i + j]"
  proof (cases "i \<le> length rows")
    case True
    then have "i + j \<le> length rows" using j(2) by simp
    then show ?thesis by (rule take_upt)
  next
    case False
    then have "j = 0" using j(2) by simp
    then show ?thesis by simp
  qed
  finally show ?thesis .
qed

lemma upt_glue:
  assumes "i \<le> b" "b = min c n" "m' \<le> n"
  shows "[i..<b] @ [c..<m'] = [i..<max b m']"
proof (cases "c \<le> n")
  case True
  then have bc: "b = c" using assms(2) by simp
  show ?thesis
  proof (cases "c \<le> m'")
    case True
    define d where "d = m' - c"
    have d: "m' = c + d" using True by (simp add: d_def)
    have ic: "i \<le> c" using assms(1) bc by simp
    have "[i..<c + d] = [i..<c] @ [c..<c + d]"
      by (rule upt_add_eq_append[OF ic])
    moreover have "max c (c + d) = c + d" by simp
    ultimately show ?thesis unfolding bc d by simp
  next
    case False
    then have "max c m' = c" "[c..<m'] = []" by simp_all
    then show ?thesis unfolding bc by simp
  qed
next
  case False
  then have "b = n" "[c..<m'] = []" "max n m' = n" using assms by simp_all
  then show ?thesis by simp
qed

lemma for_rows_attempts_batch:
  assumes ok: "row_step_ok st step"
  shows "\<exists>j\<le>min bs (length rows - i).
           attempts (snd (for_rows step s (iloc (enumerate 0 rows) i (i + bs))))
             = attempts s @ map (Pair st) [i..<i + j]
           \<and> (fst (for_rows step s (iloc (enumerate 0 rows) i (i + bs))) = None
                \<longrightarrow> j = min bs (length rows - i))"
proof -
  let ?b = "iloc (enumerate 0 rows) i (i + bs)"
  obtain j where j: "j \<le> length ?b"
     "attempts (snd (for_rows step s ?b)) = attempts s @ map (\<lambda>ir. (st, fst ir)) (take j ?b)"
     "fst (for_rows step s ?b) = None \<longrightarrow> j = length ?b"
    using for_rows_attempts[OF ok, of ?b s] by auto
  have "map (\<lambda>ir. (st, fst ir)) (take j ?b) = map (Pair st) (map fst (take j ?b))"
    by simp
  also have "\<dots> = map (Pair st) [i..<i + j]"
    by (simp only: iloc_enumerate_take[OF j(1)])
  finally have m: "map (\<lambda>ir. (st, fst ir)) (take j ?b) = map (Pair st) [i..<i + j]" .
  have c1: "j \<le> min bs (length rows - i)" using j(1) by (simp only: iloc_enumerate_length)
  have c2: "attempts (snd (for_rows step s ?b)) = attempts s @ map (Pair st) [i..<i + j]"
    using j(2) by (simp only: m)
  have c3: "fst (for_rows step s ?b) = None \<longrightarrow> j = min bs (length rows - i)"
    using j(3) by (simp only: iloc_enumerate_length)
  show ?thesis
    by (rule exI[of _ j]) (intro conjI c1 c2 c3)
qed

lemma for_batches_attempts:
  assumes ok: "row_step_ok st step"
  shows "0 < bs \<Longrightarrow> \<exists>m\<le>length rows.
           attempts (snd (for_batches step set_off bs (enumerate 0 rows) s
                            (py_range k (length rows) bs)))
             = attempts s @ map (Pair st) [k..<m]
           \<and> (fst (for_batches step set_off bs (enumerate 0 rows) s
                            (py_range k (length rows) bs)) = None \<longrightarrow> m = length rows)"
proof (induction k "length rows" bs arbitrary: s rule: py_range.induct)
  case (1 i bs)
  let ?n = "length rows"
  show ?case
  proof (cases "bs = 0 \<or> ?n \<le> i")
    case True
    then have r: "py_range i ?n bs = []" by (rule py_range_stop)
    have le: "?n \<le> i" using True "1.prems" by simp
    show ?thesis
      by (rule exI[of _ ?n]) (use le r in simp)
  next
    case False
    then have bs: "0 < bs" and lt: "i < ?n" by simp_all
    have r: "py_range i ?n bs = i # py_range (i + bs) ?n bs"
      by (rule py_range_next[OF bs lt])
    let ?b = "iloc (enumerate 0 rows) i (i + bs)"
    obtain ex s1 where fr: "for_rows step s ?b = (ex, s1)" by (cases "for_rows step s ?b")
    obtain j where j: "j \<le> min bs (?n - i)"
       "attempts s1 = attempts s @ map (Pair st) [i..<i + j]"
       "ex = None \<longrightarrow> j = min bs (?n - i)"
      using for_rows_attempts_batch[OF ok, of bs rows i s] unfolding fr by auto
    show ?thesis
    proof (cases ex)
      case (Some e)
      have res: "for_batches step set_off bs (enumerate 0 rows) s (py_range i ?n bs)
                   = (Some e, s1\<lparr>db := db s\<rparr>)"
        unfolding r using fr Some by simp
      have c1: "i + j \<le> ?n" using j(1) lt by arith
      show ?thesis
        by (rule exI[of _ "i + j"]) (use c1 j(2) res in simp)
    next
      case None
      let ?s2 = "update_and_save (set_off (i + bs)) s1"
      have res: "for_batches step set_off bs (enumerate 0 rows) s (py_range i ?n bs)
                   = for_batches step set_off bs (enumerate 0 rows) ?s2 (py_range (i + bs) ?n bs)"
        unfolding r using fr None by simp
      have jj: "i + j = min (i + bs) ?n" using j(3) None lt by arith
      obtain m' where m': "m' \<le> ?n"
        "attempts (snd (for_batches step set_off bs (enumerate 0 rows) ?s2 (py_range (i + bs) ?n bs)))
           = attempts ?s2 @ map (Pair st) [i + bs..<m']"
        "fst (for_batches step set_off bs (enumerate 0 rows) ?s2 (py_range (i + bs) ?n bs)) = None
           \<longrightarrow> m' = ?n"
        using "1.hyps"[OF False bs, of ?s2] by auto
      let ?m = "max (min (i + bs) ?n) m'"
      have glue: "[i..<min (i + bs) ?n] @ [i + bs..<m'] = [i..<?m]"
        by (rule upt_glue[OF _ refl m'(1)]) (use lt in simp)
      have c1: "?m \<le> ?n" using m'(1) by simp
      have c2: "attempts (snd (for_batches step set_off bs (enumerate 0 rows) s (py_range i ?n bs)))
                 = attempts s @ map (Pair st) [i..<?m]"
        unfolding res m'(2) update_and_save_fields j(2) jj glue[symmetric] by simp
      have c3: "fst (for_batches step set_off bs (enumerate 0 rows) s (py_range i ?n bs)) = None
                 \<longrightarrow> ?m = ?n"
        unfolding res using m'(3) by auto
      show ?thesis
        by (rule exI[of _ ?m]) (intro conjI c1 c2 c3)
    qed
  qed
qed

lemma ckpt_rel_same: "ckpt s' = ckpt s \<Longrightarrow> ckpt_file s' = ckpt_file s \<Longrightarrow> ckpt_rel f s s'"
  by (simp add: ckpt_rel_def)

lemma ckpt_rel_set:
  "ckpt s = Some c \<Longrightarrow> ckpt s' = Some (f j c) \<Longrightarrow> ckpt_file s' = Some (f j c) \<Longrightarrow> ckpt_rel f s s'"
  unfolding ckpt_rel_def by (intro disjI2 exI[of _ c] exI[of _ j]) simp

lemma ckpt_rel_cases:
  assumes "ckpt_rel f s s'"
  obtains (same) "ckpt s' = ckpt s" "ckpt_file s' = ckpt_file s"
        | (set) c j where "ckpt s = Some c" "ckpt s' = Some (f j c)" "ckpt_file s' = Some (f j c)"
  using assms unfolding ckpt_rel_def by (elim disjE exE conjE)

lemma for_batches_ckpt:
  assumes ok: "row_step_ok st step"
    and idem: "\<And>u v c. set_off v (set_off u c) = set_off v c"
  shows "ckpt_rel set_off s (snd (for_batches step set_off bs df s starts))"
proof (induction starts arbitrary: s)
  case Nil
  show ?case by (simp add: ckpt_rel_same)
next
  case (Cons i starts)
  let ?b = "iloc df i (i + bs)"
  obtain ex s1 where fr: "for_rows step s ?b = (ex, s1)" by (cases "for_rows step s ?b")
  have k1: "ckpt s1 = ckpt s" "ckpt_file s1 = ckpt_file s"
    using for_rows_ckpt[OF ok, of s ?b] unfolding fr by simp_all
  show ?case
  proof (cases ex)
    case (Some e)
    have "snd (for_batches step set_off bs df s (i # starts)) = s1\<lparr>db := db s\<rparr>"
      using fr Some by simp
    then show ?thesis using k1 by (simp add: ckpt_rel_same)
  next
    case None
    let ?s2 = "update_and_save (set_off (i + bs)) s1"
    let ?R = "snd (for_batches step set_off bs df ?s2 starts)"
    have res: "snd (for_batches step set_off bs df s (i # starts)) = ?R"
      using fr None by simp
    have ih: "ckpt_rel set_off ?s2 ?R" by (rule Cons.IH)
    show ?thesis
    proof (cases "ckpt s")
      case None
      then have "?s2 = s1" using k1 by (simp add: update_and_save_None)
      then have "ckpt ?s2 = ckpt s" "ckpt_file ?s2 = ckpt_file s" using k1 by simp_all
      with ih None show ?thesis unfolding res
        by (elim ckpt_rel_cases) (simp_all add: ckpt_rel_same)
    next
      case (Some c)
      then have c1: "ckpt s1 = Some c" using k1 by simp
      have s2: "ckpt ?s2 = Some (set_off (i + bs) c)" "ckpt_file ?s2 = Some (set_off (i + bs) c)"
        using update_and_save_Some[OF c1] by simp_all
      from ih show ?thesis unfolding res
      proof (cases rule: ckpt_rel_cases)
        case same
        then show "ckpt_rel set_off s ?R" using s2 Some by (simp add: ckpt_rel_set)
      next
        case (set c' j)
        then have "c' = set_off (i + bs) c" using s2 by simp
        then have "ckpt ?R = Some (set_off j c)" "ckpt_file ?R = Some (set_off j c)"
          using set idem by simp_all
        then show "ckpt_rel set_off s ?R" using Some by (simp add: ckpt_rel_set)
      qed
    qed
  qed
qed

lemma for_batches_observe:
  assumes ok: "row_step_ok st step"
    and idem: "\<And>u v c. set_off v (set_off u c) = set_off v c"
    and g: "\<And>j c. g (set_off j c) = g c"
  shows "map_option g (ckpt (snd (for_batches step set_off bs df s starts))) = map_option g (ckpt s)"
proof -
  have "ckpt_rel set_off s (snd (for_batches step set_off bs df s starts))"
    by (rule for_batches_ckpt[OF ok]) (rule idem)
  then show ?thesis
    by (cases rule: ckpt_rel_cases) (simp_all add: g)
qed



lemma for_rows_db_inv:
  assumes step: "\<And>s ir. I (db s) \<Longrightarrow> I (db (snd (step s ir)))"
  shows "I (db s) \<Longrightarrow> I (db (snd (for_rows step s xs)))"
proof (induction xs arbitrary: s)
  case Nil
  then show ?case by simp
next
  case (Cons x xs)
  obtain ex s1 where st: "step s x = (ex, s1)" by (cases "step s x")
  have i1: "I (db s1)" using step[OF Cons.prems, of x] unfolding st by simp
  show ?case using Cons.IH[OF i1] i1 st by (cases ex) simp_all
qed

lemma for_batches_db_inv:
  assumes step: "\<And>s ir. I (db s) \<Longrightarrow> I (db (snd (step s ir)))"
  shows "I (db s) \<Longrightarrow> I (db (snd (for_batches step set_off bs df s starts)))"
proof (induction starts arbitrary: s)
  case Nil
  then show ?case by simp
next
  case (Cons i starts)
  let ?b = "iloc df i (i + bs)"
  obtain ex s1 where fr: "for_rows step s ?b = (ex, s1)" by (cases "for_rows step s ?b")
  have i1: "I (db s1)"
    using for_rows_db_inv[of I step s ?b, OF step Cons.prems] unfolding fr by simp
  show ?case
  proof (cases ex)
    case (Some e)
    then show ?thesis using fr Cons.prems by simp
  next
    case None
    have "I (db (update_and_save (set_off (i + bs)) s1))"
      using i1 by (simp add: update_and_save_fields)
    from Cons.IH[OF this] show ?thesis using fr None by simp
  qed
qed

lemma for_rows_no_exn:
  assumes "\<And>s ir. fst (step s ir) = None"
  shows "fst (for_rows step s xs) = None"
proof (induction xs arbitrary: s)
  case Nil
  show ?case by simp
next
  case (Cons x xs)
  obtain ex s1 where st: "step s x = (ex, s1)" by (cases "step s x")
  have "ex = None" using assms[of s x] unfolding st by simp
  then show ?case using Cons.IH[of s1] st by simp
qed

lemma for_batches_no_exn:
  assumes "\<And>s ir. fst (step s ir) = None"
  shows "fst (for_batches step set_off bs df s starts) = None"
proof (induction starts arbitrary: s)
  case Nil
  show ?case by simp
next
  case (Cons i starts)
  let ?b = "iloc df i (i + bs)"
  obtain ex s1 where fr: "for_rows step s ?b = (ex, s1)" by (cases "for_rows step s ?b")
  have "ex = None" using for_rows_no_exn[of step s ?b, OF assms] unfolding fr by simp
  then show ?case using Cons.IH[of "update_and_save (set_off (i + bs)) s1"] fr by simp
qed

lemma for_rows_count_le:
  assumes "\<And>s ir. cnt (snd (step s ir)) \<le> Suc (cnt s)"
  shows "cnt (snd (for_rows step s xs)) \<le> cnt s + length xs"
proof (induction xs arbitrary: s)
  case Nil
  show ?case by simp
next
  case (Cons x xs)
  obtain ex s1 where st: "step s x = (ex, s1)" by (cases "step s x")
  have a: "cnt s1 \<le> Suc (cnt s)" using assms[of s x] unfolding st by simp
  show ?case
  proof (cases ex)
    case None
    then show ?thesis using Cons.IH[of s1] a st by simp
  next
    case (Some e)
    then show ?thesis using a st by simp
  qed
qed

lemma for_rows_count_eq:
  assumes "\<And>s ir. fst (step s ir) = None \<and> cnt (snd (step s ir)) = Suc (cnt s)"
  shows "fst (for_rows step s xs) = None \<and> cnt (snd (for_rows step s xs)) = cnt s + length xs"
proof (induction xs arbitrary: s)
  case Nil
  show ?case by simp
next
  case (Cons x xs)
  obtain ex s1 where st: "step s x = (ex, s1)" by (cases "step s x")
  have a: "ex = None" "cnt s1 = Suc (cnt s)" using assms[of s x] unfolding st by simp_all
  show ?case using Cons.IH[of s1] a st by simp
qed

section \<open>The row steps of the four loaders\<close>

lemma execute_no_interrupt:
  "\<forall>q. faults e q \<noteq> Some KeyboardInterrupt \<Longrightarrow> execute e d q \<noteq> Inl KeyboardInterrupt"
  by (auto simp: execute_def split: option.splits)

lemma papers_body_frame:
  "attempts (snd (papers_body e s row)) = attempts s"
  "ckpt (snd (papers_body e s row)) = ckpt s"
  "ckpt_file (snd (papers_body e s row)) = ckpt_file s"
  by (simp_all add: papers_body_def split: option.splits sum.splits prod.splits)

lemma datasets_body_frame:
  "attempts (snd (datasets_body e s row)) = attempts s"
  "ckpt (snd (datasets_body e s row)) = ckpt s"
  "ckpt_file (snd (datasets_body e s row)) = ckpt_file s"
  by (simp_all add: datasets_body_def split: option.splits sum.splits prod.splits)

lemma links_body_frame:
  "attempts (snd (links_body e s row)) = attempts s"
  "ckpt (snd (links_body e s row)) = ckpt s"
  "ckpt_file (snd (links_body e s row)) = ckpt_file s"
  by (simp_all add: links_body_def split: option.splits sum.splits prod.splits)

lemma eval_result_frame:
  "attempts (snd (eval_result e s row b p)) = attempts s"
  "ckpt (snd (eval_result e s row b p)) = ckpt s"
  "ckpt_file (snd (eval_result e s row b p)) = ckpt_file s"
  by (simp_all add: eval_result_def split: option.splits sum.splits prod.splits metric_field.splits)

lemma eval_paper_frame:
  "attempts (snd (eval_paper e s row b)) = attempts s"
  "ckpt (snd (eval_paper e s row b)) = ckpt s"
  "ckpt_file (snd (eval_paper e s row b)) = ckpt_file s"
  by (simp_all add: eval_paper_def eval_result_frame split: option.splits sum.splits prod.splits)

lemma eval_body_frame:
  "attempts (snd (eval_body e s row)) = attempts s"
  "ckpt (snd (eval_body e s row)) = ckpt s"
  "ckpt_file (snd (eval_body e s row)) = ckpt_file s"
  by (simp_all add: eval_body_def eval_paper_frame split: option.splits sum.splits prod.splits)

lemma enter_row_fields:
  "attempts (enter_row st i s) = attempts s @ [(st, i)]"
  "ckpt (enter_row st i s) = ckpt s"
  "ckpt_file (enter_row st i s) = ckpt_file s"
  "db (enter_row st i s) = db s"
  "inserted (enter_row st i s) = inserted s"
  "skipped (enter_row st i s) = skipped s"
  "inserted_benchmarks (enter_row st i s) = inserted_benchmarks s"
  "inserted_results (enter_row st i s) = inserted_results s"
  by (simp_all add: enter_row_def)

lemma papers_row_ok: "row_step_ok Papers (papers_row e)"
  by (simp add: row_step_ok_def papers_row_def snd_except_continue papers_body_frame enter_row_fields)

lemma datasets_row_ok: "row_step_ok Datasets (datasets_row e)"
  by (simp add: row_step_ok_def datasets_row_def snd_except_continue datasets_body_frame enter_row_fields)

lemma links_row_ok: "row_step_ok Links (links_row e)"
  by (simp add: row_step_ok_def links_row_def snd_except_continue links_body_frame enter_row_fields)

lemma eval_row_ok: "row_step_ok Evaluation (eval_row_step e)"
  by (simp add: row_step_ok_def eval_row_step_def snd_except_continue eval_body_frame enter_row_fields)

lemma load_papers_eq:
  "load_papers e bs s =
     batch_loader (papers_src e) papers_complete papers_offset (papers_row e)
       (\<lambda>v c. c\<lparr>papers_offset := v\<rparr>) (\<lambda>c. c\<lparr>papers_complete := True\<rparr>)
       (\<lambda>s. s\<lparr>inserted := 0, skipped := 0\<rparr>) inserted bs s"
  by (simp add: load_papers_def batch_loader_def)

lemma load_datasets_eq:
  "load_datasets e bs s =
     batch_loader (datasets_src e) datasets_complete datasets_offset (datasets_row e)
       (\<lambda>v c. c\<lparr>datasets_offset := v\<rparr>) (\<lambda>c. c\<lparr>datasets_complete := True\<rparr>)
       (\<lambda>s. s\<lparr>inserted := 0, skipped := 0\<rparr>) inserted bs s"
  by (simp add: load_datasets_def batch_loader_def)

lemma load_code_links_eq:
  "load_code_links e bs s =
     batch_loader (links_src e) links_complete links_offset (links_row e)
       (\<lambda>v c. c\<lparr>links_offset := v\<rparr>) (\<lambda>c. c\<lparr>links_complete := True\<rparr>)
       (\<lambda>s. s\<lparr>inserted := 0, skipped := 0\<rparr>) inserted bs s"
  by (simp add: load_code_links_def batch_loader_def)

lemma load_evaluation_tables_eq:
  "load_evaluation_tables e bs s =
     batch_loader (eval_src e) eval_complete eval_offset (eval_row_step e)
       (\<lambda>v c. c\<lparr>eval_offset := v\<rparr>) (\<lambda>c. c\<lparr>eval_complete := True\<rparr>)
       (\<lambda>s. s\<lparr>inserted_benchmarks := 0, inserted_results := 0, skipped := 0\<rparr>)
       inserted_results bs s"
  by (simp add: load_evaluation_tables_def batch_loader_def)

lemma reset_two_ok: "reset_ok (\<lambda>s. s\<lparr>inserted := 0, skipped := 0\<rparr>)"
  by (simp add: reset_ok_def)

lemma reset_three_ok:
  "reset_ok (\<lambda>s. s\<lparr>inserted_benchmarks := 0, inserted_results := 0, skipped := 0\<rparr>)"
  by (simp add: reset_ok_def)

section \<open>The loader shape\<close>

lemma reset_okD:
  assumes "reset_ok reset"
  shows "attempts (reset s) = attempts s" "ckpt (reset s) = ckpt s"
        "ckpt_file (reset s) = ckpt_file s" "db (reset s) = db s"
  using assms by (simp_all add: reset_ok_def)

lemma batch_loader_missing:
  "batch_loader None fl off step set_off set_done reset result bs s = (Inr 0, s)"
  by (simp add: batch_loader_def)

lemma batch_loader_complete:
  "complete_flag fl s \<Longrightarrow>
   batch_loader src fl off step set_off set_done reset result bs s = (Inr 0, s)"
  by (simp add: batch_loader_def split: option.splits)

lemma batch_loader_run:
  assumes "\<not> complete_flag fl s" "0 < bs"
  shows "batch_loader (Some df) fl off step set_off set_done reset result bs s =
     (case for_batches step set_off bs (enumerate 0 df) (reset s)
                    (py_range (start_offset off s) (length df) bs) of
               (Some ex, s') \<Rightarrow> (Inl ex, s')
             | (None, s') \<Rightarrow> (Inr (result s'), update_and_save set_done s'))"
  using assms by (simp add: batch_loader_def)

lemma batch_loader_attempts:
  assumes ok: "row_step_ok st step" and rs: "reset_ok reset"
    and run: "\<not> complete_flag fl s" "0 < bs"
  shows "\<exists>m\<le>length df.
           attempts (snd (batch_loader (Some df) fl off step set_off set_done reset result bs s))
             = attempts s @ map (Pair st) [start_offset off s..<m]
           \<and> (\<forall>n. fst (batch_loader (Some df) fl off step set_off set_done reset result bs s) = Inr n
                 \<longrightarrow> m = length df)"
proof -
  let ?F = "for_batches step set_off bs (enumerate 0 df) (reset s)
              (py_range (start_offset off s) (length df) bs)"
  obtain ex s1 where f: "?F = (ex, s1)" by (cases ?F)
  obtain m where m: "m \<le> length df"
     "attempts s1 = attempts (reset s) @ map (Pair st) [start_offset off s..<m]"
     "ex = None \<longrightarrow> m = length df"
    using for_batches_attempts[OF ok run(2), of df set_off "reset s" "start_offset off s"]
    unfolding f by auto
  have bl: "batch_loader (Some df) fl off step set_off set_done reset result bs s =
              (case ex of Some x \<Rightarrow> (Inl x, s1)
               | None \<Rightarrow> (Inr (result s1), update_and_save set_done s1))"
    unfolding batch_loader_run[OF run] f by (simp split: option.splits)
  have c2: "attempts (snd (batch_loader (Some df) fl off step set_off set_done reset result bs s))
             = attempts s @ map (Pair st) [start_offset off s..<m]"
    unfolding bl using m(2) by (cases ex) (simp_all add: update_and_save_fields reset_okD[OF rs])
  have c3: "\<forall>n. fst (batch_loader (Some df) fl off step set_off set_done reset result bs s) = Inr n
                 \<longrightarrow> m = length df"
    unfolding bl using m(3) by (cases ex) simp_all
  show ?thesis
    by (rule exI[of _ m]) (intro conjI m(1) c2 c3)
qed

lemma batch_loader_returns:
  assumes never: "\<And>s ir. fst (step s ir) = None" and "0 < bs"
  shows "\<exists>n. fst (batch_loader src fl off step set_off set_done reset result bs s) = Inr n"
proof (cases src)
  case None
  then show ?thesis by (simp add: batch_loader_missing)
next
  case (Some df)
  show ?thesis
  proof (cases "complete_flag fl s")
    case True
    then show ?thesis by (simp add: batch_loader_complete)
  next
    case False
    let ?F = "for_batches step set_off bs (enumerate 0 df) (reset s)
              (py_range (start_offset off s) (length df) bs)"
    have "fst ?F = None" by (rule for_batches_no_exn[OF never])
    then obtain s1 where f: "?F = (None, s1)" by (cases ?F) simp
    show ?thesis unfolding Some batch_loader_run[OF False assms(2)] f by simp
  qed
qed

lemma batch_loader_pending:
  assumes ok: "row_step_ok st step" and rs: "reset_ok reset"
    and never: "\<And>s ir. fst (step s ir) = None" and bs: "0 < bs"
  shows "attempts (snd (batch_loader src fl off step set_off set_done reset result bs s))
           = attempts s @ stream_pending st src (complete_flag fl s) (start_offset off s)"
proof (cases src)
  case None
  then show ?thesis by (simp add: batch_loader_missing stream_pending_def)
next
  case (Some df)
  show ?thesis
  proof (cases "complete_flag fl s")
    case True
    then show ?thesis by (simp add: batch_loader_complete stream_pending_def Some)
  next
    case False
    let ?R = "batch_loader (Some df) fl off step set_off set_done reset result bs s"
    obtain n where n: "fst ?R = Inr n"
      using batch_loader_returns[of step bs "Some df" fl off set_off set_done reset result s, OF never bs]
      by auto
    obtain m where m: "attempts (snd ?R) = attempts s @ map (Pair st) [start_offset off s..<m]"
        "\<forall>n. fst ?R = Inr n \<longrightarrow> m = length df"
      using batch_loader_attempts[OF ok rs False bs, of df off set_off set_done result] by auto
    have "m = length df" using m(2) n by simp
    then show ?thesis using m(1) False by (simp add: Some stream_pending_def)
  qed
qed


lemma update_and_save_observe:
  "(\<And>c. g (f c) = g c) \<Longrightarrow> map_option g (ckpt (update_and_save f s)) = map_option g (ckpt s)"
  by (cases "ckpt s") (simp_all add: update_and_save_None update_and_save_Some)


lemma batch_loader_observe:
  assumes ok: "row_step_ok st step" and rs: "reset_ok reset"
    and idem: "\<And>u v c. set_off v (set_off u c) = set_off v c"
    and g1: "\<And>j c. g (set_off j c) = g c" and g2: "\<And>c. g (set_done c) = g c"
  shows "map_option g (ckpt (snd (batch_loader src fl off step set_off set_done reset result bs s)))
           = map_option g (ckpt s)"
proof (cases "src = None \<or> complete_flag fl s")
  case True
  then show ?thesis by (auto simp: batch_loader_missing batch_loader_complete)
next
  case False
  then obtain df where src: "src = Some df" and nc: "\<not> complete_flag fl s" by auto
  show ?thesis
  proof (cases "bs = 0")
    case True
    then show ?thesis using nc by (simp add: batch_loader_def src reset_okD[OF rs])
  next
    case False
    then have bs: "0 < bs" by simp
    let ?F = "for_batches step set_off bs (enumerate 0 df) (reset s)
                (py_range (start_offset off s) (length df) bs)"
    obtain ex s1 where f: "?F = (ex, s1)" by (cases ?F)
    have "map_option g (ckpt (snd ?F)) = map_option g (ckpt (reset s))"
      by (rule for_batches_observe[OF ok]) (rule idem, rule g1)
    then have s1: "map_option g (ckpt s1) = map_option g (ckpt s)"
      unfolding f by (simp add: reset_okD[OF rs])
    show ?thesis unfolding src batch_loader_run[OF nc bs] f
      using s1 by (cases ex) (simp_all add: update_and_save_observe[of g set_done, OF g2])
  qed
qed


lemma batch_loader_db_inv:
  assumes step: "\<And>s ir. I (db s) \<Longrightarrow> I (db (snd (step s ir)))"
    and rs: "reset_ok reset" and i: "I (db s)"
  shows "I (db (snd (batch_loader src fl off step set_off set_done reset result bs s)))"
proof (cases "src = None \<or> complete_flag fl s")
  case True
  then show ?thesis using i by (auto simp: batch_loader_missing batch_loader_complete)
next
  case False
  then obtain df where src: "src = Some df" and nc: "\<not> complete_flag fl s" by auto
  show ?thesis
  proof (cases "bs = 0")
    case True
    then show ?thesis using nc i by (simp add: batch_loader_def src reset_okD[OF rs])
  next
    case False
    then have bs: "0 < bs" by simp
    let ?F = "for_batches step set_off bs (enumerate 0 df) (reset s)
                (py_range (start_offset off s) (length df) bs)"
    obtain ex s1 where f: "?F = (ex, s1)" by (cases ?F)
    have i0: "I (db (reset s))" using i by (simp add: reset_okD[OF rs])
    have "I (db (snd ?F))"
      by (rule for_batches_db_inv[where I = I and step = step and s = "reset s"])
         (rule step, assumption, rule i0)
    then have s1: "I (db s1)" unfolding f by simp
    show ?thesis unfolding src batch_loader_run[OF nc bs] f
      using s1 by (cases ex) (simp_all add: update_and_save_fields)
  qed
qed

section \<open>Resuming the papers stream\<close>

lemma except_continue_none:
  "fst r \<noteq> Some KeyboardInterrupt \<Longrightarrow> fst (except_continue r) = None"
  by (cases r; cases "fst r") (auto simp: except_continue_def split: exn.splits)

lemma papers_body_no_interrupt:
  "\<forall>q. faults e q \<noteq> Some KeyboardInterrupt \<Longrightarrow> fst (papers_body e s row) \<noteq> Some KeyboardInterrupt"
  using execute_no_interrupt[of e]
  by (auto simp: papers_body_def split: option.splits sum.splits prod.splits)

lemma papers_row_returns:
  "\<forall>q. faults e q \<noteq> Some KeyboardInterrupt \<Longrightarrow> fst (papers_row e s ir) = None"
  unfolding papers_row_def by (rule except_continue_none) (rule papers_body_no_interrupt)

text \<open>
  Claim C1. A resumed run of the papers stream whose checkpoint holds the offset \<open>k\<close> and is
  not complete enters the row loop for the indices \<open>k, k + 1, \<dots>\<close> in this order and for no
  other index: what it adds to the record of attempts is \<open>[k..<m]\<close> for some \<open>m\<close> up to the
  length of the source, and \<open>m\<close> is the length of the source when the loader returns. The
  loader does return unless a statement is interrupted.
\<close>

theorem resume_from_offset:
  assumes "papers_src e = Some df" "ckpt s = Some c" "papers_offset c = k"
    "\<not> papers_complete c" "0 < batch_size"
  shows "(\<exists>m\<le>length df.
            attempts (snd (load_papers e batch_size s)) = attempts s @ map (Pair Papers) [k..<m] \<and>
            (\<forall>n. fst (load_papers e batch_size s) = Inr n \<longrightarrow> m = length df)) \<and>
         ((\<forall>q. faults e q \<noteq> Some KeyboardInterrupt) \<longrightarrow>
            (\<exists>n. fst (load_papers e batch_size s) = Inr n))"
proof
  have run: "\<not> complete_flag papers_complete s" using assms(2,4) by (simp add: complete_flag_def)
  have k: "start_offset papers_offset s = k" using assms(2,3) by (simp add: start_offset_def)
  show "\<exists>m\<le>length df.
            attempts (snd (load_papers e batch_size s)) = attempts s @ map (Pair Papers) [k..<m] \<and>
            (\<forall>n. fst (load_papers e batch_size s) = Inr n \<longrightarrow> m = length df)"
    unfolding load_papers_eq assms(1) k[symmetric]
    by (rule batch_loader_attempts[OF papers_row_ok reset_two_ok run assms(5)])
  show "(\<forall>q. faults e q \<noteq> Some KeyboardInterrupt) \<longrightarrow>
            (\<exists>n. fst (load_papers e batch_size s) = Inr n)"
  proof
    assume nf: "\<forall>q. faults e q \<noteq> Some KeyboardInterrupt"
    show "\<exists>n. fst (load_papers e batch_size s) = Inr n"
      unfolding load_papers_eq
      by (rule batch_loader_returns[OF _ assms(5)]) (rule papers_row_returns[OF nf])
  qed
qed

theorem resume_from_offset_witness:
  "attempts (snd (load_papers (quiet_env\<lparr>papers_src := Some three_papers\<rparr>) 1
                    (initial_state\<lparr>ckpt := Some (default_checkpoint\<lparr>papers_offset := 1\<rparr>)\<rparr>)))
     = [(Papers, 1), (Papers, 2)]"
proof -
  let ?E = "quiet_env\<lparr>papers_src := Some three_papers\<rparr>"
  let ?S = "initial_state\<lparr>ckpt := Some (default_checkpoint\<lparr>papers_offset := 1\<rparr>)\<rparr>"
  have r: "(\<exists>m\<le>length three_papers.
              attempts (snd (load_papers ?E 1 ?S)) = attempts ?S @ map (Pair Papers) [1..<m] \<and>
              (\<forall>n. fst (load_papers ?E 1 ?S) = Inr n \<longrightarrow> m = length three_papers)) \<and>
           ((\<forall>q. faults ?E q \<noteq> Some KeyboardInterrupt) \<longrightarrow>
              (\<exists>n. fst (load_papers ?E 1 ?S) = Inr n))"
    by (rule resume_from_offset[where c = "default_checkpoint\<lparr>papers_offset := 1\<rparr>"])
       (simp_all add: quiet_env_def initial_state_def default_checkpoint_def)
  have "\<forall>q. faults ?E q \<noteq> Some KeyboardInterrupt" by (simp add: quiet_env_def)
  with r obtain n where n: "fst (load_papers ?E 1 ?S) = Inr n" by (elim conjE impE exE)
  from r obtain m where m: "attempts (snd (load_papers ?E 1 ?S)) = attempts ?S @ map (Pair Papers) [1..<m]"
      "\<forall>n. fst (load_papers ?E 1 ?S) = Inr n \<longrightarrow> m = length three_papers"
    by (elim conjE exE)
  have "m = 3" using m(2) n by (simp add: three_papers_def)
  moreover have "[1..<3] = [1, 2::nat]" by code_simp
  moreover have "attempts ?S = []" by (simp add: initial_state_def)
  ultimately show ?thesis using m(1) by simp
qed

section \<open>The persisted offset\<close>




section \<open>Papers without a natural key\<close>

lemma papers_row_unfold:
  "papers_row e s (i, row) = except_continue (papers_body e (enter_row Papers i s) row)"
  by (simp add: papers_row_def)

lemma papers_row_missing_key:
  assumes "arxiv_id row = None"
  shows "papers_row e s (i, row) = (None, (enter_row Papers i s)\<lparr>skipped := Suc (skipped s)\<rparr>)"
  using assms by (simp add: papers_row_unfold papers_body_def except_continue_simps enter_row_fields)

lemma run_stmt_insert_paper_key:
  "run_stmt e d (InsertPaper t a aid ua up) = (r, d') \<Longrightarrow> p \<in> set (papers d') \<Longrightarrow>
     p \<in> set (papers d) \<or> p_arxiv_id p = Some aid"
  by (auto split: if_splits)

lemma papers_body_keys:
  assumes "p \<in> set (papers (db (snd (papers_body e s row))))"
  shows "p \<in> set (papers (db s)) \<or> p_arxiv_id p \<noteq> None"
proof (cases "arxiv_id row")
  case None
  then show ?thesis using assms by (simp add: papers_body_def)
next
  case (Some aid)
  let ?q = "InsertPaper (title row) (abstract row) aid (url_abs row) (url_pdf row)"
  show ?thesis
  proof (cases "faults e ?q")
    case (Some x)
    then show ?thesis using assms \<open>arxiv_id row = Some aid\<close>
      by (simp add: papers_body_def execute_def)
  next
    case None
    obtain r d' where rs: "run_stmt e (db s) ?q = (r, d')" by (cases "run_stmt e (db s) ?q")
    have "db (snd (papers_body e s row)) = d'"
      using None rs \<open>arxiv_id row = Some aid\<close>
      by (cases r) (simp_all add: papers_body_def execute_def)
    then have "p \<in> set (papers d')" using assms by simp
    from run_stmt_insert_paper_key[OF rs this] show ?thesis by auto
  qed
qed

lemma papers_row_keys_inv:
  assumes "\<forall>p\<in>set (papers (db s)). p \<in> set P0 \<or> p_arxiv_id p \<noteq> None"
  shows "\<forall>p\<in>set (papers (db (snd (papers_row e s ir)))). p \<in> set P0 \<or> p_arxiv_id p \<noteq> None"
proof
  fix p assume "p \<in> set (papers (db (snd (papers_row e s ir))))"
  then have "p \<in> set (papers (db (snd (papers_body e (enter_row Papers (fst ir) s) (snd ir)))))"
    by (simp add: papers_row_def snd_except_continue)
  from papers_body_keys[OF this]
  have "p \<in> set (papers (db s)) \<or> p_arxiv_id p \<noteq> None" by (simp add: enter_row_fields)
  then show "p \<in> set P0 \<or> p_arxiv_id p \<noteq> None" using assms by auto
qed

text \<open>
  Claim C6. A papers row whose \<^verbatim>\<open>arxiv_id\<close> is missing is skipped: the row step raises
  nothing, increments \<open>skipped\<close> and changes nothing else but the record of attempts. And
  whatever the source, the batch size and the failures of the server, every row that the
  papers loader adds to the table \<^verbatim>\<open>papers\<close> has an \<^verbatim>\<open>arxiv_id\<close>.
\<close>

theorem missing_arxiv_id_skipped:
  "(arxiv_id row = None \<longrightarrow>
      papers_row e s (i, row) = (None, (enter_row Papers i s)\<lparr>skipped := Suc (skipped s)\<rparr>)) \<and>
   (\<forall>p\<in>set (papers (db (snd (load_papers e batch_size s)))).
      p \<in> set (papers (db s)) \<or> p_arxiv_id p \<noteq> None)"
proof
  show "arxiv_id row = None \<longrightarrow>
      papers_row e s (i, row) = (None, (enter_row Papers i s)\<lparr>skipped := Suc (skipped s)\<rparr>)"
    by (simp add: papers_row_missing_key)
  let ?I = "\<lambda>d. \<forall>p\<in>set (papers d). p \<in> set (papers (db s)) \<or> p_arxiv_id p \<noteq> None"
  have "?I (db (snd (load_papers e batch_size s)))"
    unfolding load_papers_eq
  proof (rule batch_loader_db_inv[where I = ?I])
    show "\<And>s' ir. ?I (db s') \<Longrightarrow> ?I (db (snd (papers_row e s' ir)))"
      by (rule papers_row_keys_inv)
    show "reset_ok (\<lambda>s. s\<lparr>inserted := 0, skipped := 0\<rparr>)" by (rule reset_two_ok)
    show "?I (db s)" by simp
  qed
  then show "\<forall>p\<in>set (papers (db (snd (load_papers e batch_size s)))).
      p \<in> set (papers (db s)) \<or> p_arxiv_id p \<noteq> None" .
qed

theorem missing_arxiv_id_skipped_witness:
  "papers_row quiet_env initial_state (1, three_papers ! 1)
     = (None, (enter_row Papers 1 initial_state)\<lparr>skipped := 1\<rparr>) \<and>
   list_all (\<lambda>p. p_arxiv_id p \<noteq> None)
     (papers (db (snd (load_papers (quiet_env\<lparr>papers_src := Some three_papers\<rparr>) 1000
                         (initial_state\<lparr>ckpt := Some default_checkpoint\<rparr>)))))"
proof -
  let ?E = "quiet_env\<lparr>papers_src := Some three_papers\<rparr>"
  let ?S = "initial_state\<lparr>ckpt := Some default_checkpoint\<rparr>"
  note t1 = missing_arxiv_id_skipped[of "three_papers ! 1" quiet_env initial_state 1 1000, THEN conjunct1]
  note t2 = missing_arxiv_id_skipped[of "three_papers ! 1" ?E ?S 1 1000, THEN conjunct2]
  have k: "arxiv_id (three_papers ! 1) = None" by (simp add: three_papers_def)
  have a: "papers_row quiet_env initial_state (1, three_papers ! 1)
     = (None, (enter_row Papers 1 initial_state)\<lparr>skipped := 1\<rparr>)"
    using t1 k by (simp add: initial_state_def)
  have "papers (db ?S) = []" by (simp add: initial_state_def empty_db_def)
  then have b: "list_all (\<lambda>p. p_arxiv_id p \<noteq> None) (papers (db (snd (load_papers ?E 1000 ?S))))"
    using t2 by (simp add: list_all_iff)
  show ?thesis using a b by (rule conjI)
qed

section \<open>Code links and their papers\<close>











section \<open>Row steps that return\<close>

lemma execute_Inr: "faults e q = None \<Longrightarrow> execute e d q = Inr (run_stmt e d q)"
  by (simp add: execute_def)

lemma datasets_body_no_interrupt:
  "\<forall>q. faults e q \<noteq> Some KeyboardInterrupt \<Longrightarrow> fst (datasets_body e s row) \<noteq> Some KeyboardInterrupt"
  using execute_no_interrupt[of e]
  by (auto simp: datasets_body_def split: option.splits sum.splits prod.splits)

lemma datasets_row_returns:
  "\<forall>q. faults e q \<noteq> Some KeyboardInterrupt \<Longrightarrow> fst (datasets_row e s ir) = None"
  unfolding datasets_row_def by (rule except_continue_none) (rule datasets_body_no_interrupt)

lemma links_body_no_interrupt:
  "\<forall>q. faults e q \<noteq> Some KeyboardInterrupt \<Longrightarrow> fst (links_body e s row) \<noteq> Some KeyboardInterrupt"
  using execute_no_interrupt[of e]
  by (auto simp: links_body_def split: option.splits sum.splits prod.splits)

lemma links_row_returns:
  "\<forall>q. faults e q \<noteq> Some KeyboardInterrupt \<Longrightarrow> fst (links_row e s ir) = None"
  unfolding links_row_def by (rule except_continue_none) (rule links_body_no_interrupt)

lemma eval_result_no_interrupt:
  "\<forall>q. faults e q \<noteq> Some KeyboardInterrupt \<Longrightarrow> fst (eval_result e s row b p) \<noteq> Some KeyboardInterrupt"
  using execute_no_interrupt[of e]
  by (auto simp: eval_result_def split: option.splits sum.splits prod.splits metric_field.splits)

lemma eval_paper_no_interrupt:
  "\<forall>q. faults e q \<noteq> Some KeyboardInterrupt \<Longrightarrow> fst (eval_paper e s row b) \<noteq> Some KeyboardInterrupt"
  using execute_no_interrupt[of e] eval_result_no_interrupt[of e]
  by (auto simp: eval_paper_def split: option.splits sum.splits prod.splits)

lemma eval_body_no_interrupt:
  "\<forall>q. faults e q \<noteq> Some KeyboardInterrupt \<Longrightarrow> fst (eval_body e s row) \<noteq> Some KeyboardInterrupt"
  using execute_no_interrupt[of e] eval_paper_no_interrupt[of e]
  by (auto simp: eval_body_def split: option.splits sum.splits prod.splits)

lemma eval_row_returns:
  "\<forall>q. faults e q \<noteq> Some KeyboardInterrupt \<Longrightarrow> fst (eval_row_step e s ir) = None"
  unfolding eval_row_step_def by (rule except_continue_none) (rule eval_body_no_interrupt)

section \<open>Counting rows\<close>

lemma papers_body_count:
  "inserted (snd (papers_body e s row)) + skipped (snd (papers_body e s row))
     \<le> Suc (inserted s + skipped s)"
  "\<forall>q. faults e q = None \<Longrightarrow>
     fst (papers_body e s row) = None \<and>
     inserted (snd (papers_body e s row)) + skipped (snd (papers_body e s row))
       = Suc (inserted s + skipped s)"
  by (auto simp: papers_body_def execute_def simp del: run_stmt.simps
           split: option.splits sum.splits prod.splits)

lemma datasets_body_count:
  "inserted (snd (datasets_body e s row)) + skipped (snd (datasets_body e s row))
     \<le> Suc (inserted s + skipped s)"
  "\<forall>q. faults e q = None \<Longrightarrow>
     fst (datasets_body e s row) = None \<and>
     inserted (snd (datasets_body e s row)) + skipped (snd (datasets_body e s row))
       = Suc (inserted s + skipped s)"
  by (auto simp: datasets_body_def execute_def simp del: run_stmt.simps
           split: option.splits sum.splits prod.splits)

lemma links_body_count:
  "inserted (snd (links_body e s row)) + skipped (snd (links_body e s row))
     \<le> Suc (inserted s + skipped s)"
  "\<forall>q. faults e q = None \<Longrightarrow>
     fst (links_body e s row) = None \<and>
     inserted (snd (links_body e s row)) + skipped (snd (links_body e s row))
       = Suc (inserted s + skipped s)"
  by (auto simp: links_body_def execute_def simp del: run_stmt.simps
           split: option.splits sum.splits prod.splits)

lemma eval_result_count:
  "inserted_benchmarks (snd (eval_result e s row b p)) = inserted_benchmarks s"
  "skipped (snd (eval_result e s row b p)) = skipped s"
  "benchmarks (db s) = B \<Longrightarrow> benchmarks (db (snd (eval_result e s row b p))) = B"
  "\<forall>q. faults e q = None \<Longrightarrow> fst (eval_result e s row b p) = None"
  by (auto simp: eval_result_def execute_def
           split: option.splits sum.splits prod.splits metric_field.splits if_splits)

lemma eval_paper_count:
  "inserted_benchmarks (snd (eval_paper e s row b)) = inserted_benchmarks s"
  "skipped (snd (eval_paper e s row b)) = skipped s"
  "benchmarks (db s) = B \<Longrightarrow> benchmarks (db (snd (eval_paper e s row b))) = B"
  "\<forall>q. faults e q = None \<Longrightarrow> fst (eval_paper e s row b) = None"
  by (auto simp: eval_paper_def execute_def eval_result_count
           split: option.splits sum.splits prod.splits)

lemma find_in_set: "x \<in> set xs \<Longrightarrow> P x \<Longrightarrow> \<exists>z. find P xs = Some z"
  by (cases "find P xs") (auto simp: find_None_iff)

lemma upsert_returns_row: "fst (run_stmt e d (UpsertBenchmark n did t)) \<noteq> None"
  by (auto simp: list_ex_iff dest: find_in_set)

lemma upsert_not_None: "run_stmt e d (UpsertBenchmark n did t) = (None, d') \<Longrightarrow> False"
  using upsert_returns_row[of e d n did t] by (simp del: run_stmt.simps)

lemma eval_body_count:
  "inserted_benchmarks (snd (eval_body e s row)) + skipped (snd (eval_body e s row))
     \<le> Suc (inserted_benchmarks s + skipped s)"
  "\<forall>q. faults e q = None \<Longrightarrow>
     fst (eval_body e s row) = None \<and>
     inserted_benchmarks (snd (eval_body e s row)) + skipped (snd (eval_body e s row))
       = Suc (inserted_benchmarks s + skipped s)"
proof -
  show "inserted_benchmarks (snd (eval_body e s row)) + skipped (snd (eval_body e s row))
     \<le> Suc (inserted_benchmarks s + skipped s)"
    by (auto simp: eval_body_def execute_def eval_paper_count simp del: run_stmt.simps
           split: option.splits sum.splits prod.splits)
  assume nf: "\<forall>q. faults e q = None"
  show "fst (eval_body e s row) = None \<and>
     inserted_benchmarks (snd (eval_body e s row)) + skipped (snd (eval_body e s row))
       = Suc (inserted_benchmarks s + skipped s)"
    using nf
    by (auto simp: eval_body_def execute_def eval_paper_count simp del: run_stmt.simps
           split: option.splits sum.splits prod.splits dest: upsert_not_None)
qed

section \<open>Accounting of a batch\<close>

lemma papers_row_count:
  "handled (snd (papers_row e s ir)) \<le> Suc (handled s)"
  "\<forall>q. faults e q = None \<Longrightarrow>
     fst (papers_row e s ir) = None \<and> handled (snd (papers_row e s ir)) = Suc (handled s)"
proof -
  let ?b = "papers_body e (enter_row Papers (fst ir) s) (snd ir)"
  have c: "handled (snd (papers_row e s ir)) = inserted (snd ?b) + skipped (snd ?b)"
    by (simp add: handled_def papers_row_def snd_except_continue)
  show "handled (snd (papers_row e s ir)) \<le> Suc (handled s)"
    unfolding c using papers_body_count(1)[of e "enter_row Papers (fst ir) s" "snd ir"]
    by (simp add: handled_def enter_row_fields)
  assume nf: "\<forall>q. faults e q = None"
  have b: "fst ?b = None" "inserted (snd ?b) + skipped (snd ?b) = Suc (handled s)"
    using papers_body_count(2)[OF nf, of "enter_row Papers (fst ir) s" "snd ir"]
    by (simp_all add: handled_def enter_row_fields)
  have "fst (papers_row e s ir) = None"
    unfolding papers_row_def by (rule except_continue_none) (simp add: b(1))
  then show "fst (papers_row e s ir) = None \<and> handled (snd (papers_row e s ir)) = Suc (handled s)"
    unfolding c using b(2) by simp
qed

lemma datasets_row_count:
  "handled (snd (datasets_row e s ir)) \<le> Suc (handled s)"
  "\<forall>q. faults e q = None \<Longrightarrow>
     fst (datasets_row e s ir) = None \<and> handled (snd (datasets_row e s ir)) = Suc (handled s)"
proof -
  let ?b = "datasets_body e (enter_row Datasets (fst ir) s) (snd ir)"
  have c: "handled (snd (datasets_row e s ir)) = inserted (snd ?b) + skipped (snd ?b)"
    by (simp add: handled_def datasets_row_def snd_except_continue)
  show "handled (snd (datasets_row e s ir)) \<le> Suc (handled s)"
    unfolding c using datasets_body_count(1)[of e "enter_row Datasets (fst ir) s" "snd ir"]
    by (simp add: handled_def enter_row_fields)
  assume nf: "\<forall>q. faults e q = None"
  have b: "fst ?b = None" "inserted (snd ?b) + skipped (snd ?b) = Suc (handled s)"
    using datasets_body_count(2)[OF nf, of "enter_row Datasets (fst ir) s" "snd ir"]
    by (simp_all add: handled_def enter_row_fields)
  have "fst (datasets_row e s ir) = None"
    unfolding datasets_row_def by (rule except_continue_none) (simp add: b(1))
  then show "fst (datasets_row e s ir) = None \<and> handled (snd (datasets_row e s ir)) = Suc (handled s)"
    unfolding c using b(2) by simp
qed

lemma links_row_count:
  "handled (snd (links_row e s ir)) \<le> Suc (handled s)"
  "\<forall>q. faults e q = None \<Longrightarrow>
     fst (links_row e s ir) = None \<and> handled (snd (links_row e s ir)) = Suc (handled s)"
proof -
  let ?b = "links_body e (enter_row Links (fst ir) s) (snd ir)"
  have c: "handled (snd (links_row e s ir)) = inserted (snd ?b) + skipped (snd ?b)"
    by (simp add: handled_def links_row_def snd_except_continue)
  show "handled (snd (links_row e s ir)) \<le> Suc (handled s)"
    unfolding c using links_body_count(1)[of e "enter_row Links (fst ir) s" "snd ir"]
    by (simp add: handled_def enter_row_fields)
  assume nf: "\<forall>q. faults e q = None"
  have b: "fst ?b = None" "inserted (snd ?b) + skipped (snd ?b) = Suc (handled s)"
    using links_body_count(2)[OF nf, of "enter_row Links (fst ir) s" "snd ir"]
    by (simp_all add: handled_def enter_row_fields)
  have "fst (links_row e s ir) = None"
    unfolding links_row_def by (rule except_continue_none) (simp add: b(1))
  then show "fst (links_row e s ir) = None \<and> handled (snd (links_row e s ir)) = Suc (handled s)"
    unfolding c using b(2) by simp
qed

lemma eval_row_count:
  "eval_handled (snd (eval_row_step e s ir)) \<le> Suc (eval_handled s)"
  "\<forall>q. faults e q = None \<Longrightarrow>
     fst (eval_row_step e s ir) = None \<and> eval_handled (snd (eval_row_step e s ir)) = Suc (eval_handled s)"
proof -
  let ?b = "eval_body e (enter_row Evaluation (fst ir) s) (snd ir)"
  have c: "eval_handled (snd (eval_row_step e s ir)) = inserted_benchmarks (snd ?b) + skipped (snd ?b)"
    by (simp add: eval_handled_def eval_row_step_def snd_except_continue)
  show "eval_handled (snd (eval_row_step e s ir)) \<le> Suc (eval_handled s)"
    unfolding c using eval_body_count(1)[of e "enter_row Evaluation (fst ir) s" "snd ir"]
    by (simp add: eval_handled_def enter_row_fields)
  assume nf: "\<forall>q. faults e q = None"
  have b: "fst ?b = None" "inserted_benchmarks (snd ?b) + skipped (snd ?b) = Suc (eval_handled s)"
    using eval_body_count(2)[OF nf, of "enter_row Evaluation (fst ir) s" "snd ir"]
    by (simp_all add: eval_handled_def enter_row_fields)
  have "fst (eval_row_step e s ir) = None"
    unfolding eval_row_step_def by (rule except_continue_none) (simp add: b(1))
  then show "fst (eval_row_step e s ir) = None \<and> eval_handled (snd (eval_row_step e s ir)) = Suc (eval_handled s)"
    unfolding c using b(2) by simp
qed

text \<open>
  Claim C2, as the code has it. A row whose handling raises an \<^verbatim>\<open>Exception\<close> is printed and
  counted neither as inserted nor as skipped, and the evaluation loader counts upserted
  benchmarks, inserted results and skipped rows separately. So for every batch of the
  papers, datasets and code-link streams \<open>inserted + skipped\<close> grows by at most the number of
  rows of the batch, and by exactly that number when no statement raises; for the evaluation
  stream the same holds of \<open>inserted_benchmarks + skipped\<close>.
\<close>

theorem batch_accounting:
  "(handled (snd (for_rows (papers_row e) s pb)) \<le> handled s + length pb \<and>
    ((\<forall>q. faults e q = None) \<longrightarrow>
       fst (for_rows (papers_row e) s pb) = None \<and>
       handled (snd (for_rows (papers_row e) s pb)) = handled s + length pb)) \<and>
   (handled (snd (for_rows (datasets_row e) s db')) \<le> handled s + length db' \<and>
    ((\<forall>q. faults e q = None) \<longrightarrow>
       fst (for_rows (datasets_row e) s db') = None \<and>
       handled (snd (for_rows (datasets_row e) s db')) = handled s + length db')) \<and>
   (handled (snd (for_rows (links_row e) s lb)) \<le> handled s + length lb \<and>
    ((\<forall>q. faults e q = None) \<longrightarrow>
       fst (for_rows (links_row e) s lb) = None \<and>
       handled (snd (for_rows (links_row e) s lb)) = handled s + length lb)) \<and>
   (eval_handled (snd (for_rows (eval_row_step e) s eb)) \<le> eval_handled s + length eb \<and>
    ((\<forall>q. faults e q = None) \<longrightarrow>
       fst (for_rows (eval_row_step e) s eb) = None \<and>
       eval_handled (snd (for_rows (eval_row_step e) s eb)) = eval_handled s + length eb))"
proof (intro conjI impI)
  show "handled (snd (for_rows (papers_row e) s pb)) \<le> handled s + length pb"
    by (rule for_rows_count_le) (rule papers_row_count(1))
  show "handled (snd (for_rows (datasets_row e) s db')) \<le> handled s + length db'"
    by (rule for_rows_count_le) (rule datasets_row_count(1))
  show "handled (snd (for_rows (links_row e) s lb)) \<le> handled s + length lb"
    by (rule for_rows_count_le) (rule links_row_count(1))
  show "eval_handled (snd (for_rows (eval_row_step e) s eb)) \<le> eval_handled s + length eb"
    by (rule for_rows_count_le) (rule eval_row_count(1))
next
  assume nf: "\<forall>q. faults e q = None"
  have p: "fst (for_rows (papers_row e) s pb) = None \<and>
       handled (snd (for_rows (papers_row e) s pb)) = handled s + length pb"
    by (rule for_rows_count_eq) (rule papers_row_count(2)[OF nf])
  show "fst (for_rows (papers_row e) s pb) = None" using p by simp
  show "handled (snd (for_rows (papers_row e) s pb)) = handled s + length pb" using p by simp
next
  assume nf: "\<forall>q. faults e q = None"
  have p: "fst (for_rows (datasets_row e) s db') = None \<and>
       handled (snd (for_rows (datasets_row e) s db')) = handled s + length db'"
    by (rule for_rows_count_eq) (rule datasets_row_count(2)[OF nf])
  show "fst (for_rows (datasets_row e) s db') = None" using p by simp
  show "handled (snd (for_rows (datasets_row e) s db')) = handled s + length db'" using p by simp
next
  assume nf: "\<forall>q. faults e q = None"
  have p: "fst (for_rows (links_row e) s lb) = None \<and>
       handled (snd (for_rows (links_row e) s lb)) = handled s + length lb"
    by (rule for_rows_count_eq) (rule links_row_count(2)[OF nf])
  show "fst (for_rows (links_row e) s lb) = None" using p by simp
  show "handled (snd (for_rows (links_row e) s lb)) = handled s + length lb" using p by simp
next
  assume nf: "\<forall>q. faults e q = None"
  have p: "fst (for_rows (eval_row_step e) s eb) = None \<and>
       eval_handled (snd (for_rows (eval_row_step e) s eb)) = eval_handled s + length eb"
    by (rule for_rows_count_eq) (rule eval_row_count(2)[OF nf])
  show "fst (for_rows (eval_row_step e) s eb) = None" using p by simp
  show "eval_handled (snd (for_rows (eval_row_step e) s eb)) = eval_handled s + length eb"
    using p by simp
qed

theorem batch_accounting_witness:
  "inserted (snd (for_rows (papers_row quiet_env) initial_state (enumerate 0 three_papers))) +
   skipped (snd (for_rows (papers_row quiet_env) initial_state (enumerate 0 three_papers))) = 3"
proof -
  have nf: "\<forall>q. faults quiet_env q = None" by (simp add: quiet_env_def)
  note t = batch_accounting[of quiet_env initial_state "enumerate 0 three_papers" "[]" "[]" "[]",
              THEN conjunct1, THEN conjunct2, THEN mp, OF nf, THEN conjunct2]
  have "handled initial_state = 0" by (simp add: handled_def initial_state_def)
  moreover have "length (enumerate 0 three_papers) = 3" by (simp add: three_papers_def)
  ultimately show ?thesis using t by (simp add: handled_def)
qed

theorem batch_accounting_counterexample:
  "fst (for_rows (papers_row rejecting_env) initial_state (enumerate 0 [untitled_paper])) = None \<and>
   inserted (snd (for_rows (papers_row rejecting_env) initial_state (enumerate 0 [untitled_paper]))) +
   skipped (snd (for_rows (papers_row rejecting_env) initial_state (enumerate 0 [untitled_paper])))
     = 0 \<and>
   length (enumerate 0 [untitled_paper]) = 1 \<and>
   fst (for_rows (eval_row_step quiet_env) initial_state (enumerate 0 [bare_eval_row])) = None \<and>
   inserted_results (snd (for_rows (eval_row_step quiet_env) initial_state
                            (enumerate 0 [bare_eval_row]))) +
   skipped (snd (for_rows (eval_row_step quiet_env) initial_state (enumerate 0 [bare_eval_row])))
     = 0 \<and>
   length (enumerate 0 [bare_eval_row]) = 1"
  by code_simp

section \<open>Evaluation records\<close>

lemma results_grow_refl: "results_grow d d"
  by (simp add: results_grow_def)

lemma results_grow_trans: "results_grow a b \<Longrightarrow> results_grow b c \<Longrightarrow> results_grow a c"
  by (auto simp: results_grow_def)

lemma run_stmt_grow: "results_grow d (snd (run_stmt e d q))"
  by (cases q) (simp_all add: results_grow_def)

lemma execute_grow: "execute e d q = Inr (r, d') \<Longrightarrow> results_grow d d'"
  using run_stmt_grow[of d e q] by (auto simp: execute_def split: option.splits)

lemma eval_result_grow: "results_grow (db s) (db (snd (eval_result e s row b p)))"
  by (auto simp: eval_result_def results_grow_refl
           split: option.splits sum.splits prod.splits metric_field.splits
           dest: execute_grow)

lemma eval_paper_grow: "results_grow (db s) (db (snd (eval_paper e s row b)))"
proof (cases "eval_paper_arxiv_id row")
  case None
  then show ?thesis by (simp add: eval_paper_def eval_result_grow)
next
  case (Some aid)
  show ?thesis
  proof (cases "execute e (db s) (SelectPaperId aid)")
    case (Inl x)
    then show ?thesis using Some by (simp add: eval_paper_def results_grow_refl)
  next
    case (Inr rd)
    obtain r d' where rd: "rd = (r, d')" by (cases rd)
    have g1: "results_grow (db s) d'" using Inr rd by (auto dest: execute_grow)
    have g2: "results_grow d' (db (snd (eval_result e (s\<lparr>db := d'\<rparr>) row b r)))"
      using eval_result_grow[of "s\<lparr>db := d'\<rparr>" e row b r] by simp
    show ?thesis using Some Inr rd results_grow_trans[OF g1 g2] by (simp add: eval_paper_def)
  qed
qed

lemma eval_body_grow: "results_grow (db s) (db (snd (eval_body e s row)))"
proof (cases "dataset row")
  case None
  then show ?thesis by (simp add: eval_body_def results_grow_refl)
next
  case d: (Some dn)
  show ?thesis
  proof (cases "task row")
    case None
    then show ?thesis using d by (simp add: eval_body_def results_grow_refl)
  next
    case t: (Some tk)
    show ?thesis
    proof (cases "execute e (db s) (SelectDatasetId dn)")
      case (Inl x)
      then show ?thesis using d t by (simp add: eval_body_def results_grow_refl)
    next
      case (Inr rd)
      obtain did d1 where rd: "rd = (did, d1)" by (cases rd)
      have g1: "results_grow (db s) d1" using Inr rd by (auto dest: execute_grow)
      show ?thesis
      proof (cases "execute e d1 (UpsertBenchmark (dn @ '' - '' @ tk) did tk)")
        case (Inl x)
        then show ?thesis using d t Inr rd g1 by (simp add: eval_body_def)
      next
        case up: (Inr rd2)
        obtain r2 d2 where rd2: "rd2 = (r2, d2)" by (cases rd2)
        have g2: "results_grow d1 d2" using up rd2 by (auto dest: execute_grow)
        have g12: "results_grow (db s) d2" by (rule results_grow_trans[OF g1 g2])
        show ?thesis
        proof (cases r2)
          case None
          then show ?thesis using d t Inr rd up rd2 g12 by (simp add: eval_body_def)
        next
          case (Some bid)
          let ?s2 = "s\<lparr>db := d2, inserted_benchmarks := Suc (inserted_benchmarks s)\<rparr>"
          have g3: "results_grow d2 (db (snd (eval_paper e ?s2 row bid)))"
            using eval_paper_grow[of ?s2 e row bid] by simp
          show ?thesis using d t Inr rd up rd2 Some results_grow_trans[OF g12 g3]
            by (simp add: eval_body_def)
        qed
      qed
    qed
  qed
qed

lemma eval_row_grow:
  "results_grow d0 (db s) \<Longrightarrow> results_grow d0 (db (snd (eval_row_step e s ir)))"
  unfolding eval_row_step_def snd_except_continue
  using eval_body_grow[of "enter_row Evaluation (fst ir) s" e "snd ir"]
  by (simp add: enter_row_fields results_grow_trans)

lemma eval_body_benchmark:
  assumes "dataset row = Some d" "task row = Some t"
    "faults e (SelectDatasetId d) = None"
    "did = fst (run_stmt e (db s) (SelectDatasetId d))"
    "faults e (UpsertBenchmark (d @ '' - '' @ t) did t) = None"
  shows "inserted_benchmarks (snd (eval_body e s row)) = Suc (inserted_benchmarks s)"
    "skipped (snd (eval_body e s row)) = skipped s"
    "benchmarks (db (snd (eval_body e s row)))
       = benchmarks (snd (run_stmt e (db s) (UpsertBenchmark (d @ '' - '' @ t) did t)))"
proof -
  have sel: "run_stmt e (db s) (SelectDatasetId d) = (did, db s)"
    using assms(4) by simp
  let ?up = "UpsertBenchmark (d @ '' - '' @ t) did t"
  obtain r d2 where up: "run_stmt e (db s) ?up = (r, d2)" by (cases "run_stmt e (db s) ?up")
  obtain bid where r: "r = Some bid"
    using upsert_not_None[of e "db s" "d @ '' - '' @ t" did t d2] up by (cases r) auto
  let ?s2 = "s\<lparr>db := d2, inserted_benchmarks := Suc (inserted_benchmarks s)\<rparr>"
  have b: "eval_body e s row = eval_paper e ?s2 row bid"
    using assms(1,2,3,5) sel up r
    by (simp add: eval_body_def execute_Inr del: run_stmt.simps)
  show "inserted_benchmarks (snd (eval_body e s row)) = Suc (inserted_benchmarks s)"
    unfolding b by (simp add: eval_paper_count)
  show "skipped (snd (eval_body e s row)) = skipped s"
    unfolding b by (simp add: eval_paper_count)
  have "benchmarks (db ?s2) = benchmarks d2" by simp
  then have "benchmarks (db (snd (eval_paper e ?s2 row bid))) = benchmarks d2"
    by (rule eval_paper_count(3))
  then show "benchmarks (db (snd (eval_body e s row)))
       = benchmarks (snd (run_stmt e (db s) ?up))"
    unfolding b up by simp
qed


lemma eval_row_benchmark:
  assumes "dataset row = Some d" "task row = Some t"
    "faults e (SelectDatasetId d) = None"
    "did = fst (run_stmt e (db s) (SelectDatasetId d))"
    "faults e (UpsertBenchmark (d @ '' - '' @ t) did t) = None"
  shows "inserted_benchmarks (snd (eval_row_step e s (i, row))) = Suc (inserted_benchmarks s)"
    "skipped (snd (eval_row_step e s (i, row))) = skipped s"
    "benchmarks (db (snd (eval_row_step e s (i, row))))
       = benchmarks (snd (run_stmt e (db s) (UpsertBenchmark (d @ '' - '' @ t) did t)))"
proof -
  let ?s = "enter_row Evaluation i s"
  have did: "did = fst (run_stmt e (db ?s) (SelectDatasetId d))"
    using assms(4) by (simp add: enter_row_fields)
  note b = eval_body_benchmark[OF assms(1,2,3) did assms(5)]
  show "inserted_benchmarks (snd (eval_row_step e s (i, row))) = Suc (inserted_benchmarks s)"
    using b(1) by (simp add: eval_row_step_def snd_except_continue enter_row_fields)
  show "skipped (snd (eval_row_step e s (i, row))) = skipped s"
    using b(2) by (simp add: eval_row_step_def snd_except_continue enter_row_fields)
  show "benchmarks (db (snd (eval_row_step e s (i, row))))
       = benchmarks (snd (run_stmt e (db s) (UpsertBenchmark (d @ '' - '' @ t) did t)))"
    using b(3) by (simp add: eval_row_step_def snd_except_continue enter_row_fields
                        del: run_stmt.simps)
qed





text \<open>
  Claim C8. When the benchmark of an evaluation record meets an existing row with the same
  name and dataset, the row step rewrites the task of that row and changes nothing else in
  the table \<^verbatim>\<open>benchmarks\<close>. The evaluation loader never changes or removes a row of
  \<^verbatim>\<open>benchmark_results\<close>: after any run the table is the old one with rows added at the end.
\<close>

theorem conflict_updates_task_keeps_result:
  "(dataset row = Some d \<and> task row = Some t \<and>
    did = fst (run_stmt e (db s) (SelectDatasetId d)) \<and>
    faults e (SelectDatasetId d) = None \<and>
    faults e (UpsertBenchmark (d @ '' - '' @ t) did t) = None \<and>
    key_conflict e did \<and> list_ex (bench_match (d @ '' - '' @ t) did) (benchmarks (db s)) \<longrightarrow>
      benchmarks (db (snd (eval_row_step e s (i, row))))
        = map (\<lambda>b. if bench_match (d @ '' - '' @ t) did b then b\<lparr>b_task := t\<rparr> else b)
            (benchmarks (db s))) \<and>
   (\<exists>ys. benchmark_results (db (snd (load_evaluation_tables e batch_size s)))
            = benchmark_results (db s) @ ys)"
proof
  show "dataset row = Some d \<and> task row = Some t \<and>
    did = fst (run_stmt e (db s) (SelectDatasetId d)) \<and>
    faults e (SelectDatasetId d) = None \<and>
    faults e (UpsertBenchmark (d @ '' - '' @ t) did t) = None \<and>
    key_conflict e did \<and> list_ex (bench_match (d @ '' - '' @ t) did) (benchmarks (db s)) \<longrightarrow>
      benchmarks (db (snd (eval_row_step e s (i, row))))
        = map (\<lambda>b. if bench_match (d @ '' - '' @ t) did b then b\<lparr>b_task := t\<rparr> else b)
            (benchmarks (db s))"
  proof
    assume a: "dataset row = Some d \<and> task row = Some t \<and>
      did = fst (run_stmt e (db s) (SelectDatasetId d)) \<and>
      faults e (SelectDatasetId d) = None \<and>
      faults e (UpsertBenchmark (d @ '' - '' @ t) did t) = None \<and>
      key_conflict e did \<and> list_ex (bench_match (d @ '' - '' @ t) did) (benchmarks (db s))"
    then have h: "dataset row = Some d" "task row = Some t"
      "did = fst (run_stmt e (db s) (SelectDatasetId d))"
      "faults e (SelectDatasetId d) = None"
      "faults e (UpsertBenchmark (d @ '' - '' @ t) did t) = None"
      and c: "key_conflict e did \<and> list_ex (bench_match (d @ '' - '' @ t) did) (benchmarks (db s))"
      by blast+
    have "benchmarks (db (snd (eval_row_step e s (i, row))))
       = benchmarks (snd (run_stmt e (db s) (UpsertBenchmark (d @ '' - '' @ t) did t)))"
      by (rule eval_row_benchmark(3)[OF h(1,2,4,3,5)])
    also have "\<dots> = map (\<lambda>b. if bench_match (d @ '' - '' @ t) did b then b\<lparr>b_task := t\<rparr> else b)
            (benchmarks (db s))"
      using c by simp
    finally show "benchmarks (db (snd (eval_row_step e s (i, row))))
        = map (\<lambda>b. if bench_match (d @ '' - '' @ t) did b then b\<lparr>b_task := t\<rparr> else b)
            (benchmarks (db s))" .
  qed
  have "results_grow (db s) (db (snd (load_evaluation_tables e batch_size s)))"
    unfolding load_evaluation_tables_eq
  proof (rule batch_loader_db_inv[where I = "results_grow (db s)"])
    show "\<And>s' ir. results_grow (db s) (db s') \<Longrightarrow>
            results_grow (db s) (db (snd (eval_row_step e s' ir)))"
      by (rule eval_row_grow)
    show "reset_ok (\<lambda>s. s\<lparr>inserted_benchmarks := 0, inserted_results := 0, skipped := 0\<rparr>)"
      by (rule reset_three_ok)
    show "results_grow (db s) (db s)" by (rule results_grow_refl)
  qed
  then show "\<exists>ys. benchmark_results (db (snd (load_evaluation_tables e batch_size s)))
            = benchmark_results (db s) @ ys"
    by (simp add: results_grow_def)
qed

theorem conflict_updates_task_keeps_result_witness:
  "map b_task (benchmarks (db (snd (eval_row_step quiet_env (initial_state\<lparr>db := scored_db\<rparr>)
                                      (0, rescoring_row))))) = [''T''] \<and>
   benchmark_results (db (snd (load_evaluation_tables
                                 (quiet_env\<lparr>eval_src := Some [rescoring_row]\<rparr>) 1000
                                 (initial_state\<lparr>db := scored_db\<rparr>))))
     = benchmark_results scored_db"
proof -
  let ?E = "quiet_env\<lparr>eval_src := Some [rescoring_row]\<rparr>"
  let ?S = "initial_state\<lparr>db := scored_db\<rparr>"
  note t1 = conflict_updates_task_keeps_result[of rescoring_row "''D''" "''T''" "Some 1"
              quiet_env ?S 0 1000, THEN conjunct1, THEN mp]
  note t2 = conflict_updates_task_keeps_result[of rescoring_row "''D''" "''T''" "Some 1"
              ?E ?S 0 1000, THEN conjunct2]
  have h: "dataset rescoring_row = Some ''D'' \<and> task rescoring_row = Some ''T'' \<and>
    Some 1 = fst (run_stmt quiet_env (db ?S) (SelectDatasetId ''D'')) \<and>
    faults quiet_env (SelectDatasetId ''D'') = None \<and>
    faults quiet_env (UpsertBenchmark (''D'' @ '' - '' @ ''T'') (Some 1) ''T'') = None \<and>
    key_conflict quiet_env (Some (1::nat)) \<and>
    list_ex (bench_match (''D'' @ '' - '' @ ''T'') (Some 1)) (benchmarks (db ?S))"
    by (simp add: rescoring_row_def initial_state_def scored_db_def quiet_env_def
          key_conflict_def bench_match_def)
  have a: "map b_task (benchmarks (db (snd (eval_row_step quiet_env ?S (0, rescoring_row)))))
             = [''T'']"
    unfolding t1[OF h]
    by (simp add: initial_state_def scored_db_def bench_match_def)
  obtain ys where ys: "benchmark_results (db (snd (load_evaluation_tables ?E 1000 ?S)))
            = benchmark_results (db ?S) @ ys"
    using t2 by (elim exE)
  have "length (benchmark_results (db (snd (load_evaluation_tables ?E 1000 ?S)))) = 1"
    by code_simp
  then have "ys = []" unfolding ys by (simp add: initial_state_def scored_db_def)
  then have b: "benchmark_results (db (snd (load_evaluation_tables ?E 1000 ?S)))
     = benchmark_results scored_db"
    using ys by (simp add: initial_state_def)
  show ?thesis using a b by (rule conjI)
qed

section \<open>The orchestrator\<close>

lemma complete_flag_observe:
  "map_option fl (ckpt s') = map_option fl (ckpt s) \<Longrightarrow> complete_flag fl s' = complete_flag fl s"
  by (cases "ckpt s"; cases "ckpt s'") (simp_all add: complete_flag_def)

lemma start_offset_observe:
  "map_option off (ckpt s') = map_option off (ckpt s) \<Longrightarrow> start_offset off s' = start_offset off s"
  by (cases "ckpt s"; cases "ckpt s'") (simp_all add: start_offset_def)

lemma quiet_no_interrupt: "\<forall>q. faults e q = None \<Longrightarrow> \<forall>q. faults e q \<noteq> Some KeyboardInterrupt"
  by simp

lemma load_papers_quiet:
  assumes nf: "\<forall>q. faults e q = None"
  shows "\<exists>n. fst (load_papers e 1000 s) = Inr n"
    and "attempts (snd (load_papers e 1000 s))
           = attempts s @ stream_pending Papers (papers_src e) (complete_flag papers_complete s)
                            (start_offset papers_offset s)"
proof -
  have r: "\<And>s ir. fst (papers_row e s ir) = None"
    by (rule papers_row_returns[OF quiet_no_interrupt[OF nf]])
  show "\<exists>n. fst (load_papers e 1000 s) = Inr n"
    unfolding load_papers_eq by (rule batch_loader_returns[OF r]) simp
  show "attempts (snd (load_papers e 1000 s))
           = attempts s @ stream_pending Papers (papers_src e) (complete_flag papers_complete s)
                            (start_offset papers_offset s)"
    unfolding load_papers_eq
    by (rule batch_loader_pending[OF papers_row_ok reset_two_ok r]) simp
qed

lemma load_datasets_quiet:
  assumes nf: "\<forall>q. faults e q = None"
  shows "\<exists>n. fst (load_datasets e 1000 s) = Inr n"
    and "attempts (snd (load_datasets e 1000 s))
           = attempts s @ stream_pending Datasets (datasets_src e)
                            (complete_flag datasets_complete s) (start_offset datasets_offset s)"
proof -
  have r: "\<And>s ir. fst (datasets_row e s ir) = None"
    by (rule datasets_row_returns[OF quiet_no_interrupt[OF nf]])
  show "\<exists>n. fst (load_datasets e 1000 s) = Inr n"
    unfolding load_datasets_eq by (rule batch_loader_returns[OF r]) simp
  show "attempts (snd (load_datasets e 1000 s))
           = attempts s @ stream_pending Datasets (datasets_src e)
                            (complete_flag datasets_complete s) (start_offset datasets_offset s)"
    unfolding load_datasets_eq
    by (rule batch_loader_pending[OF datasets_row_ok reset_two_ok r]) simp
qed

lemma load_code_links_quiet:
  assumes nf: "\<forall>q. faults e q = None"
  shows "\<exists>n. fst (load_code_links e 1000 s) = Inr n"
    and "attempts (snd (load_code_links e 1000 s))
           = attempts s @ stream_pending Links (links_src e)
                            (complete_flag links_complete s) (start_offset links_offset s)"
proof -
  have r: "\<And>s ir. fst (links_row e s ir) = None"
    by (rule links_row_returns[OF quiet_no_interrupt[OF nf]])
  show "\<exists>n. fst (load_code_links e 1000 s) = Inr n"
    unfolding load_code_links_eq by (rule batch_loader_returns[OF r]) simp
  show "attempts (snd (load_code_links e 1000 s))
           = attempts s @ stream_pending Links (links_src e)
                            (complete_flag links_complete s) (start_offset links_offset s)"
    unfolding load_code_links_eq
    by (rule batch_loader_pending[OF links_row_ok reset_two_ok r]) simp
qed

lemma load_evaluation_tables_quiet:
  assumes nf: "\<forall>q. faults e q = None"
  shows "\<exists>n. fst (load_evaluation_tables e 1000 s) = Inr n"
    and "attempts (snd (load_evaluation_tables e 1000 s))
           = attempts s @ stream_pending Evaluation (eval_src e)
                            (complete_flag eval_complete s) (start_offset eval_offset s)"
proof -
  have r: "\<And>s ir. fst (eval_row_step e s ir) = None"
    by (rule eval_row_returns[OF quiet_no_interrupt[OF nf]])
  show "\<exists>n. fst (load_evaluation_tables e 1000 s) = Inr n"
    unfolding load_evaluation_tables_eq by (rule batch_loader_returns[OF r]) simp
  show "attempts (snd (load_evaluation_tables e 1000 s))
           = attempts s @ stream_pending Evaluation (eval_src e)
                            (complete_flag eval_complete s) (start_offset eval_offset s)"
    unfolding load_evaluation_tables_eq
    by (rule batch_loader_pending[OF eval_row_ok reset_three_ok r]) simp
qed

lemma load_papers_observe:
  assumes "\<And>j c. g (c\<lparr>papers_offset := j\<rparr>) = g c" "\<And>c. g (c\<lparr>papers_complete := True\<rparr>) = g c"
  shows "map_option g (ckpt (snd (load_papers e bs s))) = map_option g (ckpt s)"
  unfolding load_papers_eq
  by (rule batch_loader_observe[OF papers_row_ok reset_two_ok]) (simp_all add: assms)

lemma load_datasets_observe:
  assumes "\<And>j c. g (c\<lparr>datasets_offset := j\<rparr>) = g c" "\<And>c. g (c\<lparr>datasets_complete := True\<rparr>) = g c"
  shows "map_option g (ckpt (snd (load_datasets e bs s))) = map_option g (ckpt s)"
  unfolding load_datasets_eq
  by (rule batch_loader_observe[OF datasets_row_ok reset_two_ok]) (simp_all add: assms)

lemma load_code_links_observe:
  assumes "\<And>j c. g (c\<lparr>links_offset := j\<rparr>) = g c" "\<And>c. g (c\<lparr>links_complete := True\<rparr>) = g c"
  shows "map_option g (ckpt (snd (load_code_links e bs s))) = map_option g (ckpt s)"
  unfolding load_code_links_eq
  by (rule batch_loader_observe[OF links_row_ok reset_two_ok]) (simp_all add: assms)






lemma clear_checkpoint_fields:
  "ckpt_file (clear_checkpoint s) = None" "attempts (clear_checkpoint s) = attempts s"
  "db (clear_checkpoint s) = db s" "ckpt (clear_checkpoint s) = ckpt s"
  by (simp_all add: clear_checkpoint_def)

lemma try_body_quiet:
  assumes cf: "connect_fault e = None" and nf: "\<forall>q. faults e q = None"
    and c: "ckpt s = Some c"
  shows "fst (try_body e s) = None"
    and "ckpt_file (snd (snd (try_body e s))) = None"
    and "attempts (snd (snd (try_body e s))) = attempts s @ pending e c"
proof -
  obtain n1 s1 where l1: "load_papers e 1000 s = (Inr n1, s1)"
    using load_papers_quiet(1)[OF nf, of s] by (cases "load_papers e 1000 s") auto
  obtain n2 s2 where l2: "load_datasets e 1000 s1 = (Inr n2, s2)"
    using load_datasets_quiet(1)[OF nf, of s1] by (cases "load_datasets e 1000 s1") auto
  obtain n3 s3 where l3: "load_code_links e 1000 s2 = (Inr n3, s3)"
    using load_code_links_quiet(1)[OF nf, of s2] by (cases "load_code_links e 1000 s2") auto
  obtain n4 s4 where l4: "load_evaluation_tables e 1000 s3 = (Inr n4, s4)"
    using load_evaluation_tables_quiet(1)[OF nf, of s3]
    by (cases "load_evaluation_tables e 1000 s3") auto
  have tb: "try_body e s =
              (None, [Connected, Summary n1 n2 n3 n4, AllDataLoaded, ClearingCheckpointFile],
               clear_checkpoint s4)"
    by (simp add: try_body_def cf l1 l2 l3 l4)
  show "fst (try_body e s) = None" by (simp add: tb)
  show "ckpt_file (snd (snd (try_body e s))) = None" by (simp add: tb clear_checkpoint_fields)
  have o1: "map_option g (ckpt s1) = map_option g (ckpt s)"
    if "\<And>j c. g (c\<lparr>papers_offset := j\<rparr>) = g c" "\<And>c. g (c\<lparr>papers_complete := True\<rparr>) = g c"
    for g :: "checkpoint \<Rightarrow> 'x"
    using load_papers_observe[of g e 1000 s, OF that] by (simp add: l1)
  have o2: "map_option g (ckpt s2) = map_option g (ckpt s1)"
    if "\<And>j c. g (c\<lparr>datasets_offset := j\<rparr>) = g c" "\<And>c. g (c\<lparr>datasets_complete := True\<rparr>) = g c"
    for g :: "checkpoint \<Rightarrow> 'x"
    using load_datasets_observe[of g e 1000 s1, OF that] by (simp add: l2)
  have o3: "map_option g (ckpt s3) = map_option g (ckpt s2)"
    if "\<And>j c. g (c\<lparr>links_offset := j\<rparr>) = g c" "\<And>c. g (c\<lparr>links_complete := True\<rparr>) = g c"
    for g :: "checkpoint \<Rightarrow> 'x"
    using load_code_links_observe[of g e 1000 s2, OF that] by (simp add: l3)
  have f0: "complete_flag fl s = fl c" "start_offset off s = off c" for fl off
    using c by (simp_all add: complete_flag_def start_offset_def)
  have d1: "complete_flag datasets_complete s1 = datasets_complete c"
    "start_offset datasets_offset s1 = datasets_offset c"
    using complete_flag_observe[OF o1[of datasets_complete]]
      start_offset_observe[OF o1[of datasets_offset]] by (simp_all add: f0)
  have k1: "complete_flag links_complete s2 = links_complete c"
    "start_offset links_offset s2 = links_offset c"
    using complete_flag_observe[OF o2[of links_complete]]
      start_offset_observe[OF o2[of links_offset]]
      complete_flag_observe[OF o1[of links_complete]]
      start_offset_observe[OF o1[of links_offset]] by (simp_all add: f0)
  have e1: "complete_flag eval_complete s3 = eval_complete c"
    "start_offset eval_offset s3 = eval_offset c"
    using complete_flag_observe[OF o3[of eval_complete]]
      start_offset_observe[OF o3[of eval_offset]]
      complete_flag_observe[OF o2[of eval_complete]]
      start_offset_observe[OF o2[of eval_offset]]
      complete_flag_observe[OF o1[of eval_complete]]
      start_offset_observe[OF o1[of eval_offset]] by (simp_all add: f0)
  have a1: "attempts s1 = attempts s @
              stream_pending Papers (papers_src e) (papers_complete c) (papers_offset c)"
    using load_papers_quiet(2)[OF nf, of s] by (simp add: l1 f0)
  have a2: "attempts s2 = attempts s1 @
              stream_pending Datasets (datasets_src e) (datasets_complete c) (datasets_offset c)"
    using load_datasets_quiet(2)[OF nf, of s1] by (simp add: l2 d1)
  have a3: "attempts s3 = attempts s2 @
              stream_pending Links (links_src e) (links_complete c) (links_offset c)"
    using load_code_links_quiet(2)[OF nf, of s2] by (simp add: l3 k1)
  have a4: "attempts s4 = attempts s3 @
              stream_pending Evaluation (eval_src e) (eval_complete c) (eval_offset c)"
    using load_evaluation_tables_quiet(2)[OF nf, of s3] by (simp add: l4 e1)
  show "attempts (snd (snd (try_body e s))) = attempts s @ pending e c"
    by (simp add: tb clear_checkpoint_fields a4 a3 a2 a1 pending_def)
qed


lemma main_start_fields:
  "attempts (main_start a s) = attempts s"
  "ckpt (main_start a s) = Some (load_checkpoint (if fresh a then clear_checkpoint s else s))"
  "ckpt_file (main_start a s) = (if fresh a then None else ckpt_file s)"
  by (simp_all add: main_start_def Let_def clear_checkpoint_fields)

lemma main_runs:
  assumes "\<not> clear_checkpoint_arg a" "data_dir_exists e"
  shows "snd (main a e s) = snd (snd (try_body e (main_start a s)))"
  using assms
  by (simp add: main_def split: prod.splits option.splits exn.splits)

lemma try_body_cleared:
  "fst (try_body e s) = None \<Longrightarrow> ckpt_file (snd (snd (try_body e s))) = None"
  by (auto simp: try_body_def clear_checkpoint_fields split: option.splits prod.splits sum.splits)

lemma load_checkpoint_absent: "ckpt_file s = None \<Longrightarrow> load_checkpoint s = default_checkpoint"
  by (simp add: load_checkpoint_def default_checkpoint_def)

text \<open>
  Claim C9. A loader whose source file does not exist returns 0 and leaves the whole state,
  the checkpoint dictionary and the checkpoint file included, as it was. The orchestrator
  goes on: whenever no exception leaves the body of its \<^verbatim>\<open>try\<close>, the checkpoint file is
  gone at the end, and in a run without failures every stream that has a file is processed
  from its offset to its end, whichever other files are missing.
\<close>

theorem missing_source_file:
  "(papers_src e = None \<longrightarrow> load_papers e batch_size s = (Inr 0, s)) \<and>
   (datasets_src e = None \<longrightarrow> load_datasets e batch_size s = (Inr 0, s)) \<and>
   (links_src e = None \<longrightarrow> load_code_links e batch_size s = (Inr 0, s)) \<and>
   (eval_src e = None \<longrightarrow> load_evaluation_tables e batch_size s = (Inr 0, s)) \<and>
   (\<not> clear_checkpoint_arg a \<and> data_dir_exists e \<and> fst (try_body e (main_start a s)) = None \<longrightarrow>
      ckpt_file (snd (main a e s)) = None) \<and>
   (\<not> clear_checkpoint_arg a \<and> data_dir_exists e \<and> connect_fault e = None \<and>
    (\<forall>q. faults e q = None) \<longrightarrow>
      fst (try_body e (main_start a s)) = None \<and>
      attempts (snd (main a e s))
        = attempts s @ pending e (load_checkpoint (if fresh a then clear_checkpoint s else s)))"
proof (intro conjI impI)
  show "papers_src e = None \<Longrightarrow> load_papers e batch_size s = (Inr 0, s)"
    by (simp add: load_papers_def)
  show "datasets_src e = None \<Longrightarrow> load_datasets e batch_size s = (Inr 0, s)"
    by (simp add: load_datasets_def)
  show "links_src e = None \<Longrightarrow> load_code_links e batch_size s = (Inr 0, s)"
    by (simp add: load_code_links_def)
  show "eval_src e = None \<Longrightarrow> load_evaluation_tables e batch_size s = (Inr 0, s)"
    by (simp add: load_evaluation_tables_def)
next
  assume a: "\<not> clear_checkpoint_arg a \<and> data_dir_exists e \<and>
             fst (try_body e (main_start a s)) = None"
  then have "snd (main a e s) = snd (snd (try_body e (main_start a s)))"
    by (simp add: main_runs)
  then show "ckpt_file (snd (main a e s)) = None"
    using a by (simp add: try_body_cleared)
next
  assume a: "\<not> clear_checkpoint_arg a \<and> data_dir_exists e \<and> connect_fault e = None \<and>
             (\<forall>q. faults e q = None)"
  then have cf: "connect_fault e = None" and nf: "\<forall>q. faults e q = None" by simp_all
  note q = try_body_quiet[OF cf nf main_start_fields(2), of a s]
  show "fst (try_body e (main_start a s)) = None" by (rule q(1))
  have "snd (main a e s) = snd (snd (try_body e (main_start a s)))"
    using a by (simp add: main_runs)
  then show "attempts (snd (main a e s))
        = attempts s @ pending e (load_checkpoint (if fresh a then clear_checkpoint s else s))"
    using q(3) by (simp add: main_start_fields)
qed

theorem missing_source_file_witness:
  "load_papers datasets_only_env 1000 initial_state = (Inr 0, initial_state) \<and>
   ckpt_file (snd (main no_args datasets_only_env initial_state)) = None \<and>
   attempts (snd (main no_args datasets_only_env initial_state)) = [(Datasets, 0)]"
proof -
  note t = missing_source_file[of datasets_only_env 1000 initial_state no_args]
  have h1: "papers_src datasets_only_env = None"
    by (simp add: datasets_only_env_def quiet_env_def)
  have h2: "\<not> clear_checkpoint_arg no_args \<and> data_dir_exists datasets_only_env \<and>
            connect_fault datasets_only_env = None \<and> (\<forall>q. faults datasets_only_env q = None)"
    by (simp add: datasets_only_env_def quiet_env_def no_args_def)
  have a: "load_papers datasets_only_env 1000 initial_state = (Inr 0, initial_state)"
    using t h1 by blast
  have r: "fst (try_body datasets_only_env (main_start no_args initial_state)) = None"
    "attempts (snd (main no_args datasets_only_env initial_state))
        = attempts initial_state @ pending datasets_only_env
            (load_checkpoint (if fresh no_args then clear_checkpoint initial_state
                              else initial_state))"
    using t h2 by blast+
  have b: "ckpt_file (snd (main no_args datasets_only_env initial_state)) = None"
    using t h2 r(1) by blast
  have "pending datasets_only_env
            (load_checkpoint (if fresh no_args then clear_checkpoint initial_state
                              else initial_state)) = [(Datasets, 0)]"
    by (simp add: pending_def stream_pending_def datasets_only_env_def quiet_env_def
          no_args_def initial_state_def load_checkpoint_def)
  then have c: "attempts (snd (main no_args datasets_only_env initial_state)) = [(Datasets, 0)]"
    using r(2) by (simp add: initial_state_def)
  show ?thesis using a b c by simp
qed

text \<open>
  Claim C3, as the code has it. A run that ends without an exception removes the checkpoint
  file. The next run therefore finds no checkpoint and starts from the default one: when
  nothing fails in it, it enters the row loop again for every row of every source that has
  a file, from index 0, and removes the checkpoint file again. It does not perform zero
  work (what it inserts is limited only by the uniqueness constraints of the store).
\<close>

theorem rerun_after_success:
  assumes "\<not> clear_checkpoint_arg a" "data_dir_exists e"
    "fst (try_body e (main_start a s)) = None"
    and "\<not> clear_checkpoint_arg a'" "data_dir_exists e'"
    "connect_fault e' = None" "\<forall>q. faults e' q = None"
  shows "ckpt_file (snd (main a e s)) = None \<and>
         attempts (snd (main a' e' (snd (main a e s))))
           = attempts (snd (main a e s)) @ pending e' default_checkpoint \<and>
         ckpt_file (snd (main a' e' (snd (main a e s)))) = None"
proof -
  let ?s1 = "snd (main a e s)"
  have "?s1 = snd (snd (try_body e (main_start a s)))"
    using assms(1,2) by (simp add: main_runs)
  then have f1: "ckpt_file ?s1 = None"
    using assms(3) by (simp add: try_body_cleared)
  have run: "snd (main a' e' ?s1) = snd (snd (try_body e' (main_start a' ?s1)))"
    using assms(4,5) by (simp add: main_runs)
  have "clear_checkpoint ?s1 = ?s1" using f1 by (simp add: clear_checkpoint_def)
  then have d: "load_checkpoint (if fresh a' then clear_checkpoint ?s1 else ?s1)
                  = default_checkpoint"
    using f1 by (simp add: load_checkpoint_absent)
  note q = try_body_quiet(2,3)[OF assms(6,7) main_start_fields(2), of a' ?s1]
  have "attempts (snd (main a' e' ?s1)) = attempts ?s1 @ pending e' default_checkpoint"
    using q(2) unfolding run d by (simp add: main_start_fields)
  moreover have "ckpt_file (snd (main a' e' ?s1)) = None"
    using q(1) unfolding run .
  ultimately show ?thesis using f1 by simp
qed

theorem rerun_after_success_witness:
  "ckpt_file (snd (main no_args four_sources_env initial_state)) = None \<and>
   attempts (snd (main no_args four_sources_env
                     (snd (main no_args four_sources_env initial_state))))
     = attempts (snd (main no_args four_sources_env initial_state))
       @ [(Papers, 0), (Papers, 1), (Papers, 2)] \<and>
   ckpt_file (snd (main no_args four_sources_env
                     (snd (main no_args four_sources_env initial_state)))) = None"
proof -
  have h: "\<not> clear_checkpoint_arg no_args" "data_dir_exists four_sources_env"
    by (simp_all add: four_sources_env_def quiet_env_def no_args_def)
  have x: "fst (try_body four_sources_env (main_start no_args initial_state)) = None"
    by code_simp
  have h': "connect_fault four_sources_env = None" "\<forall>q. faults four_sources_env q = None"
    by (simp_all add: four_sources_env_def quiet_env_def)
  note t = rerun_after_success[OF h x h h', of ]
  have "[0..<3] = [0, 1, 2::nat]" by code_simp
  then have "pending four_sources_env default_checkpoint = [(Papers, 0), (Papers, 1), (Papers, 2)]"
    by (simp add: pending_def stream_pending_def four_sources_env_def quiet_env_def
          default_checkpoint_def three_papers_def)
  then show ?thesis using t by simp
qed

theorem zero_work_counterexample:
  "map_option (\<lambda>c. papers_complete c \<and> datasets_complete c \<and> links_complete c \<and> eval_complete c)
     (ckpt (snd (main no_args four_sources_env initial_state))) = Some True \<and>
   ckpt_file (snd (main no_args four_sources_env initial_state)) = None \<and>
   attempts (snd (main no_args four_sources_env initial_state))
     = [(Papers, 0), (Papers, 1), (Papers, 2)] \<and>
   attempts (snd (main no_args four_sources_env
                     (snd (main no_args four_sources_env initial_state))))
     = [(Papers, 0), (Papers, 1), (Papers, 2), (Papers, 0), (Papers, 1), (Papers, 2)] \<and>
   attempts (snd (main no_args four_sources_env
                     (snd (main no_args four_sources_env initial_state))))
     \<noteq> attempts (snd (main no_args four_sources_env initial_state))"
  by code_simp




end
